theory Spec2Isabelle
  imports Main "HOL-Library.AList"
begin

section \<open>The matchmaking and signalling server\<close>

text \<open>
  The server (the Socket.IO part of the server file) keeps three process-wide tables:
  \<^verbatim>\<open>connectedUsers\<close> (a Map from socket id to socket), \<^verbatim>\<open>waitingUsers\<close> (a Set of
  socket ids) and \<^verbatim>\<open>activeRooms\<close> (a Map from room id to \<^verbatim>\<open>{users, createdAt}\<close>).
  A JavaScript Map and Set iterate in insertion order, so they are lists here: an
  association list with \<open>AList.update\<close> (replace in place, else append) for
  \<^verbatim>\<open>Map.set\<close>, \<open>AList.delete\<close> for \<^verbatim>\<open>Map.delete\<close>, \<open>map_of\<close> for \<^verbatim>\<open>Map.get\<close>, and a
  duplicate-free list with \<open>set_add\<close> and \<open>removeAll\<close> for the Set.

  Socket ids and room ids are strings; Socket.IO rooms and sockets share one name space,
  so both are the same type. Timestamps are milliseconds (\<^verbatim>\<open>Date\<close> subtraction).
\<close>

type_synonym socket_id = string
type_synonym room_id = string
type_synonym payload = string

record socket =
  sock_id :: socket_id
  sock_user :: int

record room =
  users :: "socket_id list"
  createdAt :: int

text \<open>The events the server emits to clients, with the fields each one carries.\<close>

datatype message =
    Matched room_id socket_id bool
  | WaitingForMatch
  | AlreadyInRoom room_id
  | PartnerSkipped
  | PartnerDisconnected
  | WebrtcOffer payload socket_id
  | WebrtcAnswer payload socket_id
  | WebrtcIceCandidate payload socket_id
  | ChatMessage payload socket_id int
  | PartnerCameraToggle bool socket_id
  | PartnerMicToggle bool socket_id

text \<open>An emission is the socket an event is emitted on, and the event.\<close>

type_synonym emission = "socket_id \<times> message"

text \<open>
  A row of the table \<^verbatim>\<open>user_sessions\<close> of the schema, with the columns the server's
  queries read or write (the serial \<^verbatim>\<open>id\<close> is never read).
\<close>

record session_row =
  row_user_id :: int
  row_socket_id :: socket_id
  row_room_id :: "room_id option"
  row_connected_at :: int
  row_disconnected_at :: "int option"
  row_is_active :: bool

text \<open>
  The state: the three tables, the room membership kept by the Socket.IO adapter
  (pairs of a room and a socket joined to it, in joining order) and the rows of
  \<^verbatim>\<open>user_sessions\<close>.
\<close>

record server =
  connectedUsers :: "(socket_id \<times> socket) list"
  waitingUsers :: "socket_id list"
  activeRooms :: "(room_id \<times> room) list"
  adapter :: "(room_id \<times> socket_id) list"
  user_sessions :: "session_row list"

definition initial :: server where
  "initial = \<lparr>connectedUsers = [], waitingUsers = [], activeRooms = [],
     adapter = [], user_sessions = []\<rparr>"

subsection \<open>JavaScript and Socket.IO primitives\<close>

text \<open>\<^verbatim>\<open>Set.add\<close>: an element already present keeps its place.\<close>

definition set_add :: "'a \<Rightarrow> 'a list \<Rightarrow> 'a list" where
  "set_add x xs = (if x \<in> set xs then xs else xs @ [x])"

text \<open>
  \<^verbatim>\<open>socket.join(room)\<close> and \<^verbatim>\<open>socket.leave(room)\<close>. The state does not record which
  stored sockets have already disconnected, so a join by such a socket (one that stayed
  in \<^verbatim>\<open>connectedUsers\<close> after a failed clean-up), which Socket.IO ignores, is recorded
  in the membership like any other.
\<close>

definition sio_join :: "socket_id \<Rightarrow> room_id \<Rightarrow> server \<Rightarrow> server" where
  "sio_join x r s = s\<lparr>adapter := set_add (r, x) (adapter s)\<rparr>"

definition sio_leave :: "socket_id \<Rightarrow> room_id \<Rightarrow> server \<Rightarrow> server" where
  "sio_leave x r s = s\<lparr>adapter := removeAll (r, x) (adapter s)\<rparr>"

text \<open>The sockets joined to a room.\<close>

definition sio_members :: "server \<Rightarrow> room_id \<Rightarrow> socket_id list" where
  "sio_members s r = map snd (filter (\<lambda>p. fst p = r) (adapter s))"

text \<open>
  \<^verbatim>\<open>socket.to(room).emit(event)\<close>: the event goes to every socket joined to the room
  except the sending socket.
\<close>

definition sio_to :: "server \<Rightarrow> socket_id \<Rightarrow> room_id \<Rightarrow> message \<Rightarrow> emission list" where
  "sio_to s x r m = map (\<lambda>y. (y, m)) (filter (\<lambda>y. y \<noteq> x) (sio_members s r))"

text \<open>
  \<^verbatim>\<open>room.users.find((id) => id !== socket.id)\<close> followed by \<^verbatim>\<open>if (otherUserId)\<close>:
  the first member that is not the socket, when there is one and it is a truthy
  (non-empty) string.
\<close>

definition other_user :: "room \<Rightarrow> socket_id \<Rightarrow> socket_id option" where
  "other_user rm x =
     (case List.find (\<lambda>i. i \<noteq> x) (users rm) of
        None \<Rightarrow> None
      | Some y \<Rightarrow> if y \<noteq> [] then Some y else None)"

subsection \<open>findMatch\<close>

text \<open>
  The loop of \<^verbatim>\<open>findMatch\<close> over \<^verbatim>\<open>waitingUsers\<close>: the first waiting id other than
  \<^verbatim>\<open>userId\<close> for which both sockets are in \<^verbatim>\<open>connectedUsers\<close>.
\<close>

fun find_partner ::
  "(socket_id \<times> socket) list \<Rightarrow> socket_id \<Rightarrow> socket_id list \<Rightarrow> socket_id option" where
  "find_partner cu userId [] = None"
| "find_partner cu userId (waitingUserId # rest) =
     (if waitingUserId \<noteq> userId \<and> map_of cu userId \<noteq> None \<and> map_of cu waitingUserId \<noteq> None
      then Some waitingUserId
      else find_partner cu userId rest)"

text \<open>
  \<^verbatim>\<open>findMatch(userId)\<close>. \<^verbatim>\<open>generateRoomId()\<close> draws the id from \<^verbatim>\<open>Math.random\<close> and
  \<^verbatim>\<open>new Date()\<close> reads the clock: the id drawn in the pairing iteration and the time are
  the parameters \<open>roomId\<close> and \<open>now\<close>. The result is the new state, the events emitted
  and the returned boolean.
\<close>

definition findMatch ::
  "server \<Rightarrow> socket_id \<Rightarrow> room_id \<Rightarrow> int \<Rightarrow> server \<times> emission list \<times> bool" where
  "findMatch s userId roomId now =
     (let s1 = s\<lparr>waitingUsers := removeAll userId (waitingUsers s)\<rparr> in
      case find_partner (connectedUsers s1) userId (waitingUsers s1) of
        Some waitingUserId \<Rightarrow>
          (sio_join waitingUserId roomId (sio_join userId roomId
             (s1\<lparr>waitingUsers := removeAll waitingUserId (waitingUsers s1)\<rparr>))
             \<lparr>activeRooms :=
                AList.update roomId \<lparr>users = [userId, waitingUserId], createdAt = now\<rparr>
                  (activeRooms s1)\<rparr>,
           [(userId, Matched roomId waitingUserId True),
            (waitingUserId, Matched roomId userId False)],
           True)
      | None \<Rightarrow> (s1\<lparr>waitingUsers := set_add userId (waitingUsers s1)\<rparr>, [], False))"

text \<open>
  The two lines that follow every call of \<^verbatim>\<open>findMatch\<close> in a handler:
  \<^verbatim>\<open>const matched = findMatch(socket.id); if (!matched) socket.emit("waiting-for-match")\<close>.
\<close>

definition match_or_wait ::
  "server \<Rightarrow> socket_id \<Rightarrow> room_id \<Rightarrow> int \<Rightarrow> server \<times> emission list" where
  "match_or_wait s x roomId now =
     (case findMatch s x roomId now of
        (s', out, matched) \<Rightarrow>
          (s', if matched then out else out @ [(x, WaitingForMatch)]))"

subsection \<open>The handlers\<close>

text \<open>
  A handler is a function from the state to the new state and the events it emits; it
  runs to completion before the next one starts (the interleaving of two handlers at an
  \<^verbatim>\<open>await\<close> is not part of this model).

  Every \<^verbatim>\<open>query\<close> can throw (the helper rethrows the driver's error). A handler is
  modelled against one database status \<open>db\<close> for its whole run: \<open>True\<close> when each of its
  queries succeeds, \<open>False\<close> when the database is unreachable and its first query throws.
\<close>

datatype failure = ProcessExit

text \<open>
  \<^verbatim>\<open>io.on("connection")\<close>: the socket is stored, then a row is inserted (an error of the
  insert is caught and logged).
\<close>

definition on_connection :: "server \<Rightarrow> socket \<Rightarrow> bool \<Rightarrow> int \<Rightarrow> server" where
  "on_connection s sock db now =
     s\<lparr>connectedUsers := AList.update (sock_id sock) sock (connectedUsers s),
       user_sessions :=
         (if db then user_sessions s @
            [\<lparr>row_user_id = sock_user sock, row_socket_id = sock_id sock, row_room_id = None,
              row_connected_at = now, row_disconnected_at = None, row_is_active = True\<rparr>]
          else user_sessions s)\<rparr>"

text \<open>
  The rows of \<^verbatim>\<open>SELECT room_id FROM user_sessions WHERE user_id = $1 AND is_active = true
  AND room_id IS NOT NULL\<close>.
\<close>

definition existingSession :: "server \<Rightarrow> int \<Rightarrow> room_id list" where
  "existingSession s uid =
     List.map_filter
       (\<lambda>r. if row_user_id r = uid \<and> row_is_active r then row_room_id r else None)
       (user_sessions s)"

text \<open>
  \<^verbatim>\<open>socket.on("find-match")\<close>. The query is awaited outside any \<^verbatim>\<open>try\<close>: when it throws,
  the rejection is unhandled and the \<^verbatim>\<open>unhandledRejection\<close> hook exits the process.
\<close>

definition on_find_match ::
  "server \<Rightarrow> socket \<Rightarrow> bool \<Rightarrow> room_id \<Rightarrow> int \<Rightarrow> failure + server \<times> emission list" where
  "on_find_match s sock db roomId now =
     (if \<not> db then Inl ProcessExit
      else case existingSession s (sock_user sock) of
             r # _ \<Rightarrow> Inr (s, [(sock_id sock, AlreadyInRoom r)])
           | [] \<Rightarrow> Inr (match_or_wait s (sock_id sock) roomId now))"

text \<open>The six relay handlers: one broadcast to the named Socket.IO room each.\<close>

definition on_webrtc_offer :: "server \<Rightarrow> socket \<Rightarrow> room_id \<Rightarrow> payload \<Rightarrow> emission list" where
  "on_webrtc_offer s sock roomId offer =
     sio_to s (sock_id sock) roomId (WebrtcOffer offer (sock_id sock))"

definition on_webrtc_answer :: "server \<Rightarrow> socket \<Rightarrow> room_id \<Rightarrow> payload \<Rightarrow> emission list" where
  "on_webrtc_answer s sock roomId answer =
     sio_to s (sock_id sock) roomId (WebrtcAnswer answer (sock_id sock))"

definition on_webrtc_ice_candidate ::
  "server \<Rightarrow> socket \<Rightarrow> room_id \<Rightarrow> payload \<Rightarrow> emission list" where
  "on_webrtc_ice_candidate s sock roomId candidate =
     sio_to s (sock_id sock) roomId (WebrtcIceCandidate candidate (sock_id sock))"

definition on_chat_message ::
  "server \<Rightarrow> socket \<Rightarrow> room_id \<Rightarrow> payload \<Rightarrow> int \<Rightarrow> emission list" where
  "on_chat_message s sock roomId msg now =
     sio_to s (sock_id sock) roomId (ChatMessage msg (sock_id sock) now)"

definition on_toggle_camera :: "server \<Rightarrow> socket \<Rightarrow> room_id \<Rightarrow> bool \<Rightarrow> emission list" where
  "on_toggle_camera s sock roomId isOn =
     sio_to s (sock_id sock) roomId (PartnerCameraToggle isOn (sock_id sock))"

definition on_toggle_mic :: "server \<Rightarrow> socket \<Rightarrow> room_id \<Rightarrow> bool \<Rightarrow> emission list" where
  "on_toggle_mic s sock roomId isOn =
     sio_to s (sock_id sock) roomId (PartnerMicToggle isOn (sock_id sock))"

text \<open>
  A relay request: which of the six client events it is, with its data. \<open>relay\<close> is the
  dispatch of a request to its handler; no relay handler writes to a table, so the
  result is the list of emissions only.
\<close>

datatype signal =
    Offer payload
  | Answer payload
  | IceCandidate payload
  | Chat payload
  | CameraToggle bool
  | MicToggle bool

fun relay :: "server \<Rightarrow> socket \<Rightarrow> room_id \<Rightarrow> signal \<Rightarrow> int \<Rightarrow> emission list" where
  "relay s sock roomId (Offer p) now = on_webrtc_offer s sock roomId p"
| "relay s sock roomId (Answer p) now = on_webrtc_answer s sock roomId p"
| "relay s sock roomId (IceCandidate p) now = on_webrtc_ice_candidate s sock roomId p"
| "relay s sock roomId (Chat p) now = on_chat_message s sock roomId p now"
| "relay s sock roomId (CameraToggle b) now = on_toggle_camera s sock roomId b"
| "relay s sock roomId (MicToggle b) now = on_toggle_mic s sock roomId b"

text \<open>
  The clean-up both \<^verbatim>\<open>skip-user\<close> and \<^verbatim>\<open>disconnect\<close> do for the other member of a room:
  \<^verbatim>\<open>otherSocket.leave(roomId)\<close> when the other member is found and connected.
\<close>

definition other_leaves :: "room \<Rightarrow> socket_id \<Rightarrow> room_id \<Rightarrow> server \<Rightarrow> server" where
  "other_leaves rm x roomId s =
     (case other_user rm x of
        None \<Rightarrow> s
      | Some otherUserId \<Rightarrow>
          if map_of (connectedUsers s) otherUserId \<noteq> None then sio_leave otherUserId roomId s
          else s)"

text \<open>
  \<^verbatim>\<open>socket.on("skip-user")\<close>, with the room named by the client and the id a new room
  would get.
\<close>

definition on_skip_user ::
  "server \<Rightarrow> socket \<Rightarrow> room_id \<Rightarrow> room_id \<Rightarrow> int \<Rightarrow> server \<times> emission list" where
  "on_skip_user s sock roomId newRoomId now =
     (let out = sio_to s (sock_id sock) roomId PartnerSkipped;
          s1 = sio_leave (sock_id sock) roomId s;
          s2 = (case map_of (activeRooms s1) roomId of
                  None \<Rightarrow> s1
                | Some rm \<Rightarrow>
                    (other_leaves rm (sock_id sock) roomId s1)
                      \<lparr>activeRooms := AList.delete roomId (activeRooms s1)\<rparr>)
      in case match_or_wait s2 (sock_id sock) newRoomId now of
           (s3, out') \<Rightarrow> (s3, out @ out'))"

text \<open>
  \<^verbatim>\<open>socket.on("disconnect")\<close>. The whole body is inside \<^verbatim>\<open>try\<close>, behind the first
  awaited query: when that query throws, the \<^verbatim>\<open>catch\<close> logs the error and nothing else
  is done. The updates of \<^verbatim>\<open>chat_rooms\<close> and \<^verbatim>\<open>room_participants\<close> touch tables that are
  not part of the state.
\<close>

definition notify_other :: "server \<Rightarrow> room \<Rightarrow> socket_id \<Rightarrow> emission list" where
  "notify_other s rm x =
     (case other_user rm x of
        None \<Rightarrow> []
      | Some otherUserId \<Rightarrow>
          if map_of (connectedUsers s) otherUserId \<noteq> None
          then [(otherUserId, PartnerDisconnected)] else [])"

definition on_disconnect ::
  "server \<Rightarrow> socket \<Rightarrow> bool \<Rightarrow> int \<Rightarrow> server \<times> emission list" where
  "on_disconnect s sock db now =
     (if \<not> db then (s, [])
      else
        let s1 = s\<lparr>user_sessions :=
                     map (\<lambda>r. if row_socket_id r = sock_id sock
                               then r\<lparr>row_disconnected_at := Some now, row_is_active := False\<rparr>
                               else r) (user_sessions s),
                   waitingUsers := removeAll (sock_id sock) (waitingUsers s)\<rparr>;
            (s2, out) =
              (case List.find (\<lambda>(roomId, rm). sock_id sock \<in> set (users rm)) (activeRooms s1) of
                 None \<Rightarrow> (s1, [])
               | Some (roomId, rm) \<Rightarrow>
                   ((other_leaves rm (sock_id sock) roomId s1)
                      \<lparr>activeRooms := AList.delete roomId (activeRooms s1)\<rparr>,
                    notify_other s1 rm (sock_id sock)))
        in (s2\<lparr>connectedUsers := AList.delete (sock_id sock) (connectedUsers s2)\<rparr>, out))"

text \<open>
  The periodic clean-up task. The loop runs over the entries of \<^verbatim>\<open>activeRooms\<close>; a room
  older than one hour is deleted and then a query is awaited, so an unreachable database
  ends the loop (and the task) right after the first deletion.
\<close>

fun sweep_loop ::
  "bool \<Rightarrow> int \<Rightarrow> (room_id \<times> room) list \<Rightarrow> (room_id \<times> room) list \<Rightarrow> (room_id \<times> room) list" where
  "sweep_loop db now [] ar = ar"
| "sweep_loop db now ((roomId, rm) # rest) ar =
     (if now - createdAt rm > 3600000 then
        (if db then sweep_loop db now rest (AList.delete roomId ar)
         else AList.delete roomId ar)
      else sweep_loop db now rest ar)"

definition sweep :: "server \<Rightarrow> bool \<Rightarrow> int \<Rightarrow> server" where
  "sweep s db now =
     s\<lparr>activeRooms := sweep_loop db now (activeRooms s) (activeRooms s),
       user_sessions :=
         (if db then
            filter (\<lambda>r. case row_disconnected_at r of
                           None \<Rightarrow> True
                         | Some t \<Rightarrow> \<not> t < now - 86400000) (user_sessions s)
          else user_sessions s)\<rparr>"

subsection \<open>Runs of the server\<close>

text \<open>
  What a client or the environment can make the server do. A handler of a socket is
  registered by the connection handler, which also stores the socket in
  \<^verbatim>\<open>connectedUsers\<close>: the step of a socket that is not stored there does nothing.
  The connection handler registers the handlers after its awaited insert, and an event a
  client sends before that is dropped: the events of a run are the ones that reach a
  registered handler.
  Socket.IO itself joins a new socket to the room named by its own id, and takes a
  socket out of every room before it fires \<^verbatim>\<open>disconnect\<close>.
\<close>

datatype event =
    Connection socket bool int
  | FindMatch socket_id bool room_id int
  | Signal socket_id room_id signal int
  | SkipUser socket_id room_id room_id int
  | Disconnect socket_id bool int
  | Sweep bool int

definition sio_leave_all :: "socket_id \<Rightarrow> server \<Rightarrow> server" where
  "sio_leave_all x s = s\<lparr>adapter := filter (\<lambda>p. snd p \<noteq> x) (adapter s)\<rparr>"

fun step :: "server \<Rightarrow> event \<Rightarrow> failure + server \<times> emission list" where
  "step s (Connection sock db now) =
     Inr (on_connection (sio_join (sock_id sock) (sock_id sock) s) sock db now, [])"
| "step s (FindMatch x db roomId now) =
     (case map_of (connectedUsers s) x of
        None \<Rightarrow> Inr (s, [])
      | Some sock \<Rightarrow> on_find_match s sock db roomId now)"
| "step s (Signal x roomId sig now) =
     (case map_of (connectedUsers s) x of
        None \<Rightarrow> Inr (s, [])
      | Some sock \<Rightarrow> Inr (s, relay s sock roomId sig now))"
| "step s (SkipUser x roomId newRoomId now) =
     (case map_of (connectedUsers s) x of
        None \<Rightarrow> Inr (s, [])
      | Some sock \<Rightarrow> Inr (on_skip_user s sock roomId newRoomId now))"
| "step s (Disconnect x db now) =
     (case map_of (connectedUsers s) x of
        None \<Rightarrow> Inr (s, [])
      | Some sock \<Rightarrow> Inr (on_disconnect (sio_leave_all x s) sock db now))"
| "step s (Sweep db now) = Inr (sweep s db now, [])"

fun run :: "server \<Rightarrow> event list \<Rightarrow> failure + server \<times> emission list" where
  "run s [] = Inr (s, [])"
| "run s (e # es) =
     (case step s e of
        Inl f \<Rightarrow> Inl f
      | Inr (s', out) \<Rightarrow>
          (case run s' es of
             Inl f \<Rightarrow> Inl f
           | Inr (s'', out') \<Rightarrow> Inr (s'', out @ out')))"

subsection \<open>Concrete sessions and states\<close>

definition sockA :: socket where "sockA = \<lparr>sock_id = ''A'', sock_user = 1\<rparr>"
definition sockB :: socket where "sockB = \<lparr>sock_id = ''B'', sock_user = 2\<rparr>"
definition sockC :: socket where "sockC = \<lparr>sock_id = ''C'', sock_user = 3\<rparr>"

text \<open>A, B and C are connected and nobody has asked for a match.\<close>

definition st_connected :: server where
  "st_connected =
     \<lparr>connectedUsers = [(''A'', sockA), (''B'', sockB), (''C'', sockC)],
      waitingUsers = [],
      activeRooms = [],
      adapter = [(''A'', ''A''), (''B'', ''B''), (''C'', ''C'')],
      user_sessions =
        [\<lparr>row_user_id = 1, row_socket_id = ''A'', row_room_id = None,
          row_connected_at = 0, row_disconnected_at = None, row_is_active = True\<rparr>,
         \<lparr>row_user_id = 2, row_socket_id = ''B'', row_room_id = None,
          row_connected_at = 0, row_disconnected_at = None, row_is_active = True\<rparr>,
         \<lparr>row_user_id = 3, row_socket_id = ''C'', row_room_id = None,
          row_connected_at = 0, row_disconnected_at = None, row_is_active = True\<rparr>]\<rparr>"

text \<open>Then A asks for a match and waits.\<close>

definition st_waiting :: server where
  "st_waiting = st_connected\<lparr>waitingUsers := [''A'']\<rparr>"

text \<open>Then B asks for a match and is paired with A in room R1 at time 10.\<close>

definition st_paired :: server where
  "st_paired =
     st_connected
       \<lparr>activeRooms := [(''R1'', \<lparr>users = [''B'', ''A''], createdAt = 10\<rparr>)],
        adapter := [(''A'', ''A''), (''B'', ''B''), (''C'', ''C''), (''R1'', ''B''), (''R1'', ''A'')]\<rparr>"


subsection \<open>Observations on emissions\<close>

text \<open>The sockets told by a \<^verbatim>\<open>matched\<close> event that they are the initiator.\<close>

definition initiators :: "emission list \<Rightarrow> socket_id list" where
  "initiators out =
     List.map_filter
       (\<lambda>(x, m). case m of Matched r p b \<Rightarrow> if b then Some x else None | _ \<Rightarrow> None) out"

text \<open>The event a relay request becomes, tagged with the sender's id.\<close>

fun relay_message :: "signal \<Rightarrow> socket_id \<Rightarrow> int \<Rightarrow> message" where
  "relay_message (Offer p) from now = WebrtcOffer p from"
| "relay_message (Answer p) from now = WebrtcAnswer p from"
| "relay_message (IceCandidate p) from now = WebrtcIceCandidate p from"
| "relay_message (Chat p) from now = ChatMessage p from now"
| "relay_message (CameraToggle b) from now = PartnerCameraToggle b from"
| "relay_message (MicToggle b) from now = PartnerMicToggle b from"

text \<open>An entry of \<^verbatim>\<open>activeRooms\<close> whose member list includes the socket.\<close>

definition in_room :: "socket_id \<Rightarrow> room_id \<times> room \<Rightarrow> bool" where
  "in_room x e = (x \<in> set (users (snd e)))"

text \<open>
  The test of the clean-up task, \<^verbatim>\<open>now - room.createdAt > 3600000\<close>, on an entry of
  \<^verbatim>\<open>activeRooms\<close>.
\<close>

definition stale :: "int \<Rightarrow> room_id \<times> room \<Rightarrow> bool" where
  "stale now e = (now - createdAt (snd e) > 3600000)"

text \<open>A fourth session, and the state after C and D have been paired too, in room R2 at time 20.\<close>

definition sockD :: socket where "sockD = \<lparr>sock_id = ''D'', sock_user = 4\<rparr>"

definition st_two_rooms :: server where
  "st_two_rooms =
     \<lparr>connectedUsers = [(''A'', sockA), (''B'', sockB), (''C'', sockC), (''D'', sockD)],
      waitingUsers = [],
      activeRooms = [(''R1'', \<lparr>users = [''B'', ''A''], createdAt = 10\<rparr>),
                     (''R2'', \<lparr>users = [''D'', ''C''], createdAt = 20\<rparr>)],
      adapter = [(''A'', ''A''), (''B'', ''B''), (''C'', ''C''), (''R1'', ''B''), (''R1'', ''A''),
                 (''D'', ''D''), (''R2'', ''D''), (''R2'', ''C'')],
      user_sessions =
        [\<lparr>row_user_id = 1, row_socket_id = ''A'', row_room_id = None,
          row_connected_at = 0, row_disconnected_at = None, row_is_active = True\<rparr>,
         \<lparr>row_user_id = 2, row_socket_id = ''B'', row_room_id = None,
          row_connected_at = 0, row_disconnected_at = None, row_is_active = True\<rparr>,
         \<lparr>row_user_id = 3, row_socket_id = ''C'', row_room_id = None,
          row_connected_at = 0, row_disconnected_at = None, row_is_active = True\<rparr>,
         \<lparr>row_user_id = 4, row_socket_id = ''D'', row_room_id = None,
          row_connected_at = 12, row_disconnected_at = None, row_is_active = True\<rparr>]\<rparr>"

text \<open>A \<^verbatim>\<open>matched\<close> event that pairs the socket: sent to it, or naming it as the partner.\<close>

definition pairs_with :: "socket_id \<Rightarrow> emission \<Rightarrow> bool" where
  "pairs_with x e = (case snd e of Matched r p b \<Rightarrow> fst e = x \<or> p = x | _ \<Rightarrow> False)"

text \<open>The connection of a socket with the given id.\<close>

definition connects :: "socket_id \<Rightarrow> event \<Rightarrow> bool" where
  "connects x e = (case e of Connection sk db t \<Rightarrow> sock_id sk = x | _ \<Rightarrow> False)"

text \<open>The events a run has emitted (none when the process exited).\<close>

definition emitted :: "failure + server \<times> emission list \<Rightarrow> emission list" where
  "emitted res = (case res of Inl f \<Rightarrow> [] | Inr (s, out) \<Rightarrow> out)"

text \<open>
  The socket is gone from the server's tables: it is not waiting, and no entry of
  \<^verbatim>\<open>connectedUsers\<close> has its id as key or holds a socket with its id.
\<close>

definition absent :: "socket_id \<Rightarrow> server \<Rightarrow> bool" where
  "absent x s =
     (x \<notin> set (waitingUsers s) \<and>
      list_all (\<lambda>e. fst e \<noteq> x \<and> sock_id (snd e) \<noteq> x) (connectedUsers s))"

text \<open>The ids of the active rooms whose member list includes the session.\<close>

definition rooms_of :: "server \<Rightarrow> socket_id \<Rightarrow> room_id list" where
  "rooms_of s x = map fst (filter (in_room x) (activeRooms s))"

text \<open>
  The state after A and B have been paired in R1, C has asked for a match, and A has
  asked for a match again and has been paired with C in room R2 at time 30.
\<close>

definition st_rematched :: server where
  "st_rematched =
     st_connected
       \<lparr>activeRooms := [(''R1'', \<lparr>users = [''B'', ''A''], createdAt = 10\<rparr>),
                        (''R2'', \<lparr>users = [''A'', ''C''], createdAt = 30\<rparr>)],
        adapter := [(''A'', ''A''), (''B'', ''B''), (''C'', ''C''), (''R1'', ''B''), (''R1'', ''A''),
                    (''R2'', ''A''), (''R2'', ''C'')]\<rparr>"

text \<open>No row of \<^verbatim>\<open>user_sessions\<close> has a room id.\<close>

definition rows_unroomed :: "server \<Rightarrow> bool" where
  "rows_unroomed s = list_all (\<lambda>r. row_room_id r = None) (user_sessions s)"

text \<open>
  Every waiting session is connected, and every socket is stored under its own id.
\<close>

definition queue_connected :: "server \<Rightarrow> bool" where
  "queue_connected s =
     (set (waitingUsers s) \<subseteq> fst ` set (connectedUsers s) \<and>
      list_all (\<lambda>e. sock_id (snd e) = fst e) (connectedUsers s))"

text \<open>
  The state after A and B have been paired in R1 and B has asked for a match again: B is
  a member of R1 and is in the queue.
\<close>

definition st_partner_queued :: server where
  "st_partner_queued = st_paired\<lparr>waitingUsers := [''B'']\<rparr>"

section \<open>Properties\<close>

subsection \<open>Pairing\<close>

lemma find_partner_Some:
  "find_partner cu u ws = Some w \<Longrightarrow>
     w \<in> set ws \<and> w \<noteq> u \<and> map_of cu u \<noteq> None \<and> map_of cu w \<noteq> None"
  by (induction ws) (auto split: if_splits)

text \<open>
  Claim C4. Whenever \<^verbatim>\<open>findMatch\<close> pairs two sessions (it returns true), the partner
  is a session that was waiting and is not the caller, the caller (whose request
  triggered the pairing) is told \<^verbatim>\<open>isInitiator: true\<close> and the waiting session
  \<^verbatim>\<open>isInitiator: false\<close>, so exactly one of the two is the initiator; the partner and
  the flags are a function of the state and the caller.
\<close>

theorem findMatch_initiator:
  assumes "findMatch s userId roomId now = (s', out, True)"
  shows "\<exists>w. find_partner (connectedUsers s) userId (removeAll userId (waitingUsers s)) = Some w \<and>
           w \<in> set (waitingUsers s) \<and> w \<noteq> userId \<and>
           out = [(userId, Matched roomId w True), (w, Matched roomId userId False)] \<and>
           initiators out = [userId] \<and>
           map_of (activeRooms s') roomId = Some \<lparr>users = [userId, w], createdAt = now\<rparr>"
proof (cases "find_partner (connectedUsers s) userId (removeAll userId (waitingUsers s))")
  case None
  with assms show ?thesis by (simp add: findMatch_def)
next
  case (Some w)
  from find_partner_Some [OF Some] have w: "w \<in> set (waitingUsers s)" "w \<noteq> userId"
    by auto
  from assms Some have out: "out = [(userId, Matched roomId w True), (w, Matched roomId userId False)]"
    and s': "activeRooms s' = AList.update roomId \<lparr>users = [userId, w], createdAt = now\<rparr> (activeRooms s)"
    by (auto simp: findMatch_def sio_join_def)
  from s' have "map_of (activeRooms s') roomId = Some \<lparr>users = [userId, w], createdAt = now\<rparr>"
    by (simp add: update_conv')
  moreover from out have "initiators out = [userId]"
    by (simp add: initiators_def List.map_filter_def)
  ultimately show ?thesis using Some w out by blast
qed

theorem findMatch_initiator_witness:
  "findMatch st_waiting ''B'' ''R1'' 10 =
     (st_paired, [(''B'', Matched ''R1'' ''A'' True), (''A'', Matched ''R1'' ''B'' False)], True) \<and>
   find_partner (connectedUsers st_waiting) ''B'' (removeAll ''B'' (waitingUsers st_waiting)) =
     Some ''A'' \<and>
   initiators [(''B'', Matched ''R1'' ''A'' True), (''A'', Matched ''R1'' ''B'' False)] = [''B'']"
proof -
  have e: "findMatch st_waiting ''B'' ''R1'' 10 =
      (st_paired, [(''B'', Matched ''R1'' ''A'' True), (''A'', Matched ''R1'' ''B'' False)], True)"
    by (simp add: findMatch_def st_waiting_def st_paired_def st_connected_def sio_join_def set_add_def)
  from findMatch_initiator [OF e]
  have "initiators [(''B'', Matched ''R1'' ''A'' True), (''A'', Matched ''R1'' ''B'' False)] = [''B'']"
    by blast
  moreover have "find_partner (connectedUsers st_waiting) ''B''
      (removeAll ''B'' (waitingUsers st_waiting)) = Some ''A''"
    by (simp add: st_waiting_def st_connected_def)
  ultimately show ?thesis using e by simp
qed

lemma find_partner_connected:
  assumes "map_of cu u \<noteq> None" and "set ws \<subseteq> fst ` set cu"
  shows "find_partner cu u ws = List.find (\<lambda>w. w \<noteq> u) ws"
  using assms(2)
proof (induction ws)
  case Nil
  show ?case by simp
next
  case (Cons w ws)
  then have "map_of cu w \<noteq> None"
    by (simp add: map_of_eq_None_iff)
  with Cons assms(1) show ?case by simp
qed

lemma find_removeAll:
  "List.find (\<lambda>w. w \<noteq> u) (removeAll u ws) = (case removeAll u ws of [] \<Rightarrow> None | p # _ \<Rightarrow> Some p)"
proof (cases "removeAll u ws")
  case Nil
  then show ?thesis by simp
next
  case (Cons p ps)
  then have "p \<in> set (removeAll u ws)" by simp
  then have "p \<noteq> u" by simp
  with Cons show ?thesis by simp
qed

text \<open>
  Claim C5. A call of \<^verbatim>\<open>findMatch\<close> from a handler, by a connected session, in a state
  whose waiting sessions are all connected: if another session is waiting, the earliest
  waiting one is the partner, both leave the queue and a room of exactly these two is
  stored; if none is waiting, the caller is queued (alone) and is sent
  \<^verbatim>\<open>waiting-for-match\<close>.
\<close>

theorem match_or_wait_pairs_or_queues:
  assumes conn: "x \<in> fst ` set (connectedUsers s)"
    and waiting: "set (waitingUsers s) \<subseteq> fst ` set (connectedUsers s)"
    and res: "match_or_wait s x roomId now = (s', out)"
  shows "((\<exists>w \<in> set (waitingUsers s). w \<noteq> x) \<longrightarrow>
            (\<exists>p rest. removeAll x (waitingUsers s) = p # rest \<and>
               p \<in> set (waitingUsers s) \<and> p \<noteq> x \<and>
               waitingUsers s' = removeAll p rest \<and>
               x \<notin> set (waitingUsers s') \<and> p \<notin> set (waitingUsers s') \<and>
               activeRooms s' =
                 AList.update roomId \<lparr>users = [x, p], createdAt = now\<rparr> (activeRooms s) \<and>
               map_of (activeRooms s') roomId = Some \<lparr>users = [x, p], createdAt = now\<rparr> \<and>
               out = [(x, Matched roomId p True), (p, Matched roomId x False)])) \<and>
         (\<not> (\<exists>w \<in> set (waitingUsers s). w \<noteq> x) \<longrightarrow>
            waitingUsers s' = [x] \<and> activeRooms s' = activeRooms s \<and>
            out = [(x, WaitingForMatch)])"
proof -
  have cx: "map_of (connectedUsers s) x \<noteq> None"
    using conn by (simp add: map_of_eq_None_iff)
  have sub: "set (removeAll x (waitingUsers s)) \<subseteq> fst ` set (connectedUsers s)"
    using waiting by auto
  have fp: "find_partner (connectedUsers s) x (removeAll x (waitingUsers s)) =
      (case removeAll x (waitingUsers s) of [] \<Rightarrow> None | p # _ \<Rightarrow> Some p)"
    by (simp only: find_partner_connected [OF cx sub] find_removeAll)
  show ?thesis
  proof (cases "removeAll x (waitingUsers s)")
    case Nil
    have none: "\<not> (\<exists>w \<in> set (waitingUsers s). w \<noteq> x)"
    proof
      assume "\<exists>w \<in> set (waitingUsers s). w \<noteq> x"
      then obtain w where "w \<in> set (waitingUsers s)" "w \<noteq> x" by blast
      then have "w \<in> set (removeAll x (waitingUsers s))" by simp
      with Nil show False by simp
    qed
    have fpN: "find_partner (connectedUsers s) x (removeAll x (waitingUsers s)) = None"
      using fp Nil by simp
    have "findMatch s x roomId now =
        (s\<lparr>waitingUsers := set_add x (removeAll x (waitingUsers s))\<rparr>, [], False)"
      by (simp add: findMatch_def fpN)
    then have fm: "findMatch s x roomId now = (s\<lparr>waitingUsers := [x]\<rparr>, [], False)"
      by (simp add: Nil set_add_def)
    from res have "s' = s\<lparr>waitingUsers := [x]\<rparr>" "out = [(x, WaitingForMatch)]"
      by (simp_all add: match_or_wait_def fm)
    then have "waitingUsers s' = [x] \<and> activeRooms s' = activeRooms s \<and>
        out = [(x, WaitingForMatch)]"
      by simp
    with none show ?thesis by blast
  next
    case (Cons p rest)
    then have "p \<in> set (removeAll x (waitingUsers s))" by simp
    then have p: "p \<in> set (waitingUsers s)" "p \<noteq> x" by auto
    have xr: "x \<notin> set rest"
    proof
      assume "x \<in> set rest"
      then have "x \<in> set (removeAll x (waitingUsers s))" using Cons by simp
      then show False by simp
    qed
    have fpS: "find_partner (connectedUsers s) x (removeAll x (waitingUsers s)) = Some p"
      using fp Cons by simp
    have "findMatch s x roomId now =
        (sio_join p roomId (sio_join x roomId
           (s\<lparr>waitingUsers := removeAll p (removeAll x (waitingUsers s))\<rparr>))
           \<lparr>activeRooms :=
              AList.update roomId \<lparr>users = [x, p], createdAt = now\<rparr> (activeRooms s)\<rparr>,
         [(x, Matched roomId p True), (p, Matched roomId x False)], True)"
      by (simp add: findMatch_def fpS)
    then have fm: "findMatch s x roomId now =
        (sio_join p roomId (sio_join x roomId (s\<lparr>waitingUsers := removeAll p rest\<rparr>))
           \<lparr>activeRooms :=
              AList.update roomId \<lparr>users = [x, p], createdAt = now\<rparr> (activeRooms s)\<rparr>,
         [(x, Matched roomId p True), (p, Matched roomId x False)], True)"
      by (simp add: Cons)
    from res have w': "waitingUsers s' = removeAll p rest"
      and a': "activeRooms s' =
                 AList.update roomId \<lparr>users = [x, p], createdAt = now\<rparr> (activeRooms s)"
      and o': "out = [(x, Matched roomId p True), (p, Matched roomId x False)]"
      by (auto simp: match_or_wait_def fm sio_join_def)
    from a' have m': "map_of (activeRooms s') roomId = Some \<lparr>users = [x, p], createdAt = now\<rparr>"
      by (simp add: update_conv')
    from w' xr have n': "x \<notin> set (waitingUsers s')" "p \<notin> set (waitingUsers s')"
      by auto
    have "\<exists>p rest. removeAll x (waitingUsers s) = p # rest \<and>
               p \<in> set (waitingUsers s) \<and> p \<noteq> x \<and>
               waitingUsers s' = removeAll p rest \<and>
               x \<notin> set (waitingUsers s') \<and> p \<notin> set (waitingUsers s') \<and>
               activeRooms s' =
                 AList.update roomId \<lparr>users = [x, p], createdAt = now\<rparr> (activeRooms s) \<and>
               map_of (activeRooms s') roomId = Some \<lparr>users = [x, p], createdAt = now\<rparr> \<and>
               out = [(x, Matched roomId p True), (p, Matched roomId x False)]"
      using Cons p w' n' a' m' o' by blast
    moreover have "\<exists>w \<in> set (waitingUsers s). w \<noteq> x" using p by blast
    ultimately show ?thesis by blast
  qed
qed

theorem match_or_wait_pairs_or_queues_witness:
  "''B'' \<in> fst ` set (connectedUsers st_waiting) \<and>
   set (waitingUsers st_waiting) \<subseteq> fst ` set (connectedUsers st_waiting) \<and>
   (\<exists>w \<in> set (waitingUsers st_waiting). w \<noteq> ''B'') \<and>
   match_or_wait st_waiting ''B'' ''R1'' 10 =
     (st_paired, [(''B'', Matched ''R1'' ''A'' True), (''A'', Matched ''R1'' ''B'' False)]) \<and>
   ''B'' \<notin> set (waitingUsers st_paired) \<and>
   map_of (activeRooms st_paired) ''R1'' = Some \<lparr>users = [''B'', ''A''], createdAt = 10\<rparr>"
proof -
  have c: "''B'' \<in> fst ` set (connectedUsers st_waiting)"
    by (simp add: st_waiting_def st_connected_def)
  have w: "set (waitingUsers st_waiting) \<subseteq> fst ` set (connectedUsers st_waiting)"
    by (simp add: st_waiting_def st_connected_def)
  have e: "match_or_wait st_waiting ''B'' ''R1'' 10 =
      (st_paired, [(''B'', Matched ''R1'' ''A'' True), (''A'', Matched ''R1'' ''B'' False)])"
    by (simp add: match_or_wait_def findMatch_def st_waiting_def st_paired_def st_connected_def
        sio_join_def set_add_def)
  have o: "\<exists>w \<in> set (waitingUsers st_waiting). w \<noteq> ''B''"
    by (simp add: st_waiting_def st_connected_def)
  have r: "removeAll ''B'' (waitingUsers st_waiting) = [''A'']"
    by (simp add: st_waiting_def st_connected_def)
  from match_or_wait_pairs_or_queues [OF c w e] o
  have "\<exists>p rest. removeAll ''B'' (waitingUsers st_waiting) = p # rest \<and>
      ''B'' \<notin> set (waitingUsers st_paired) \<and>
      map_of (activeRooms st_paired) ''R1'' = Some \<lparr>users = [''B'', p], createdAt = 10\<rparr>"
    by blast
  then have "''B'' \<notin> set (waitingUsers st_paired) \<and>
      map_of (activeRooms st_paired) ''R1'' = Some \<lparr>users = [''B'', ''A''], createdAt = 10\<rparr>"
    unfolding r by simp
  with c w o e show ?thesis by simp
qed

subsection \<open>Relay\<close>

text \<open>
  The concrete states are states of the server: \<open>st_waiting\<close> after A, B and C have
  connected and A has asked for a match, \<open>st_paired\<close> after B has asked for a match
  too.
\<close>

lemma run_reaches_st_waiting:
  "run initial
     [Connection sockA True 0, Connection sockB True 0, Connection sockC True 0,
      FindMatch ''A'' True ''R0'' 5] =
   Inr (st_waiting, [(''A'', WaitingForMatch)])"
  by (simp add: initial_def st_waiting_def st_connected_def sockA_def sockB_def sockC_def
      on_connection_def sio_join_def set_add_def on_find_match_def existingSession_def
      List.map_filter_def match_or_wait_def findMatch_def)

lemma run_reaches_st_paired:
  "run initial
     [Connection sockA True 0, Connection sockB True 0, Connection sockC True 0,
      FindMatch ''A'' True ''R0'' 5, FindMatch ''B'' True ''R1'' 10] =
   Inr (st_paired,
     [(''A'', WaitingForMatch),
      (''B'', Matched ''R1'' ''A'' True), (''A'', Matched ''R1'' ''B'' False)])"
  by (simp add: initial_def st_paired_def st_connected_def sockA_def sockB_def sockC_def
      on_connection_def sio_join_def set_add_def on_find_match_def existingSession_def
      List.map_filter_def match_or_wait_def findMatch_def)

text \<open>
  Claim C1 does not hold: C is not a member of room R1, and its offer naming R1 is
  emitted to both members of R1.
\<close>

theorem relay_nonmember_counterexample:
  "map_of (activeRooms st_paired) ''R1'' = Some \<lparr>users = [''B'', ''A''], createdAt = 10\<rparr> \<and>
   sock_id sockC \<notin> set [''B'', ''A''] \<and>
   relay st_paired sockC ''R1'' (Offer ''sdp'') 11 =
     [(''B'', WebrtcOffer ''sdp'' ''C''), (''A'', WebrtcOffer ''sdp'' ''C'')]"
  by (simp add: st_paired_def st_connected_def sockC_def on_webrtc_offer_def sio_to_def
      sio_members_def)

text \<open>
  Claim C1, amended. A relay request of any of the six kinds is emitted, tagged with the
  sender's id, to exactly the sockets joined to the named Socket.IO room other than the
  sender, whoever the sender is; the sender gets nothing, and the three tables of the
  server are neither read nor written.
\<close>

theorem relay_reaches_joined_sockets:
  "relay s sock roomId sig now =
     map (\<lambda>y. (y, relay_message sig (sock_id sock) now))
       (filter (\<lambda>y. y \<noteq> sock_id sock) (sio_members s roomId)) \<and>
   fst ` set (relay s sock roomId sig now) = set (sio_members s roomId) - {sock_id sock} \<and>
   relay (s\<lparr>connectedUsers := cu, waitingUsers := wu, activeRooms := ar\<rparr>) sock roomId sig now =
     relay s sock roomId sig now"
proof -
  have 1: "relay s sock roomId sig now =
     map (\<lambda>y. (y, relay_message sig (sock_id sock) now))
       (filter (\<lambda>y. y \<noteq> sock_id sock) (sio_members s roomId))" for s
    by (cases sig)
      (simp_all add: on_webrtc_offer_def on_webrtc_answer_def on_webrtc_ice_candidate_def
        on_chat_message_def on_toggle_camera_def on_toggle_mic_def sio_to_def)
  have 2: "fst ` set (relay s sock roomId sig now) = set (sio_members s roomId) - {sock_id sock}"
    unfolding 1 by (auto simp: image_iff)
  have 3: "sio_members (s\<lparr>connectedUsers := cu, waitingUsers := wu, activeRooms := ar\<rparr>) roomId =
      sio_members s roomId"
    by (simp add: sio_members_def)
  show ?thesis
    using 1 [of s] 2
    by (simp add: 1 [of "s\<lparr>connectedUsers := cu, waitingUsers := wu, activeRooms := ar\<rparr>"] 3)
qed

subsection \<open>Skipping\<close>

lemma distinct_sio_members: "distinct (adapter s) \<Longrightarrow> distinct (sio_members s r)"
  unfolding sio_members_def
  by (induction "adapter s" arbitrary: s) (auto simp: distinct_map inj_on_def)

lemma match_or_wait_cases:
  assumes "match_or_wait s x r now = (s', out)"
  shows "(out = [(x, WaitingForMatch)] \<and>
          waitingUsers s' = removeAll x (waitingUsers s) @ [x] \<and>
          activeRooms s' = activeRooms s \<and> connectedUsers s' = connectedUsers s \<and>
          user_sessions s' = user_sessions s \<and> adapter s' = adapter s) \<or>
         (\<exists>p. p \<in> set (waitingUsers s) \<and> p \<noteq> x \<and>
            map_of (connectedUsers s) x \<noteq> None \<and> map_of (connectedUsers s) p \<noteq> None \<and>
            out = [(x, Matched r p True), (p, Matched r x False)] \<and>
            waitingUsers s' = removeAll p (removeAll x (waitingUsers s)) \<and>
            activeRooms s' = AList.update r \<lparr>users = [x, p], createdAt = now\<rparr> (activeRooms s) \<and>
            connectedUsers s' = connectedUsers s \<and> user_sessions s' = user_sessions s \<and>
            adapter s' = set_add (r, p) (set_add (r, x) (adapter s)))"
proof (cases "find_partner (connectedUsers s) x (removeAll x (waitingUsers s))")
  case None
  with assms show ?thesis
    by (auto simp: match_or_wait_def findMatch_def set_add_def)
next
  case (Some p)
  from find_partner_Some [OF Some]
  have p: "p \<in> set (waitingUsers s)" "p \<noteq> x" "map_of (connectedUsers s) x \<noteq> None"
    "map_of (connectedUsers s) p \<noteq> None"
    by auto
  from assms Some have "out = [(x, Matched r p True), (p, Matched r x False)] \<and>
      waitingUsers s' = removeAll p (removeAll x (waitingUsers s)) \<and>
      activeRooms s' = AList.update r \<lparr>users = [x, p], createdAt = now\<rparr> (activeRooms s) \<and>
      connectedUsers s' = connectedUsers s \<and> user_sessions s' = user_sessions s \<and>
      adapter s' = set_add (r, p) (set_add (r, x) (adapter s))"
    by (auto simp: match_or_wait_def findMatch_def sio_join_def)
  with p show ?thesis by blast
qed

lemma other_leaves_tables:
  "waitingUsers (other_leaves rm x r s) = waitingUsers s"
  "connectedUsers (other_leaves rm x r s) = connectedUsers s"
  "activeRooms (other_leaves rm x r s) = activeRooms s"
  "user_sessions (other_leaves rm x r s) = user_sessions s"
  by (simp_all add: other_leaves_def sio_leave_def split: option.splits)

lemma on_skip_user_room:
  assumes "map_of (activeRooms s) roomId = Some rm"
  shows "on_skip_user s sock roomId newRoomId now =
     (case match_or_wait
        ((other_leaves rm (sock_id sock) roomId (sio_leave (sock_id sock) roomId s))
           \<lparr>activeRooms := AList.delete roomId (activeRooms s)\<rparr>) (sock_id sock) newRoomId now of
        (s3, out') \<Rightarrow> (s3, sio_to s (sock_id sock) roomId PartnerSkipped @ out'))"
  using assms by (simp add: on_skip_user_def Let_def sio_leave_def)

lemma distinct_set_singleton:
  assumes "distinct xs" and "set xs = {b}"
  shows "xs = [b]"
proof (cases xs)
  case Nil
  with assms(2) show ?thesis by simp
next
  case (Cons y ys)
  with assms(2) have y: "y = b" and sub: "set ys \<subseteq> {b}" by auto
  from Cons assms(1) y have "b \<notin> set ys" by simp
  have "ys = []"
  proof (cases ys)
    case Nil
    then show ?thesis .
  next
    case (Cons z zs)
    then have "z \<in> set ys" by simp
    with sub have "z = b" by blast
    with \<open>z \<in> set ys\<close> \<open>b \<notin> set ys\<close> show ?thesis by simp
  qed
  with Cons y show ?thesis by simp
qed

lemma sio_members_set_add:
  "r' \<noteq> r \<Longrightarrow> sio_members (s\<lparr>adapter := set_add (r', y) ad\<rparr>) r = sio_members (s\<lparr>adapter := ad\<rparr>) r"
  by (simp add: sio_members_def set_add_def)

lemma set_sio_members_leave:
  "set (sio_members (sio_leave x r s) r) = set (sio_members s r) - {x}"
  by (auto simp: sio_members_def sio_leave_def)

text \<open>
  Claim C6, in a state where the partner is not in the queue. Session A skips room R
  whose other member is B, exactly A and B are joined to R, B is connected and B is not
  waiting: B is sent exactly one \<^verbatim>\<open>partner-skipped\<close> and A none, R leaves
  \<^verbatim>\<open>activeRooms\<close> and nobody stays joined to it, A is sent either
  \<^verbatim>\<open>waiting-for-match\<close> (and is queued) or \<^verbatim>\<open>matched\<close> with a waiting session other
  than B (in a new room), and B is not queued.
\<close>

theorem skip_user_by_member:
  assumes room: "map_of (activeRooms s) roomId = Some rm"
    and members: "set (users rm) = {sock_id sock, b}" "b \<noteq> sock_id sock" "b \<noteq> []"
    and conn: "b \<in> fst ` set (connectedUsers s)"
    and joined: "distinct (adapter s)" "set (sio_members s roomId) = {sock_id sock, b}"
    and idle: "b \<notin> set (waitingUsers s)"
    and fresh: "newRoomId \<noteq> roomId"
    and res: "on_skip_user s sock roomId newRoomId now = (s', out)"
  shows "\<exists>out'. out = (b, PartnerSkipped) # out' \<and>
           (sock_id sock, PartnerSkipped) \<notin> set out \<and> (b, PartnerSkipped) \<notin> set out' \<and>
           map_of (activeRooms s') roomId = None \<and> sio_members s' roomId = [] \<and>
           b \<notin> set (waitingUsers s') \<and>
           (out' = [(sock_id sock, WaitingForMatch)] \<and> sock_id sock \<in> set (waitingUsers s') \<or>
            (\<exists>p. p \<in> set (waitingUsers s) \<and> p \<noteq> sock_id sock \<and> p \<noteq> b \<and>
               out' = [(sock_id sock, Matched newRoomId p True),
                       (p, Matched newRoomId (sock_id sock) False)] \<and>
               map_of (activeRooms s') newRoomId =
                 Some \<lparr>users = [sock_id sock, p], createdAt = now\<rparr> \<and>
               sock_id sock \<notin> set (waitingUsers s')))"
proof -
  let ?a = "sock_id sock"
  define s2 where "s2 = (other_leaves rm ?a roomId (sio_leave ?a roomId s))
           \<lparr>activeRooms := AList.delete roomId (activeRooms s)\<rparr>"
  obtain s3 out' where mw: "match_or_wait s2 ?a newRoomId now = (s3, out')"
    by (cases "match_or_wait s2 ?a newRoomId now")
  from res have s': "s' = s3" and out: "out = sio_to s ?a roomId PartnerSkipped @ out'"
    by (simp_all add: on_skip_user_room [OF room] s2_def [symmetric] mw)
  have "distinct (sio_members s roomId)"
    by (rule distinct_sio_members [OF joined(1)])
  then have "distinct (filter (\<lambda>y. y \<noteq> ?a) (sio_members s roomId))"
    by simp
  moreover have "set (filter (\<lambda>y. y \<noteq> ?a) (sio_members s roomId)) = {b}"
    using joined(2) members(2) by auto
  ultimately have "filter (\<lambda>y. y \<noteq> ?a) (sio_members s roomId) = [b]"
    by (rule distinct_set_singleton)
  then have skipped: "sio_to s ?a roomId PartnerSkipped = [(b, PartnerSkipped)]"
    by (simp add: sio_to_def)
  have ou: "other_user rm ?a = Some b"
  proof -
    have "\<exists>y. List.find (\<lambda>i. i \<noteq> ?a) (users rm) = Some y"
      using members(1,2) by (cases "List.find (\<lambda>i. i \<noteq> ?a) (users rm)") (auto simp: find_None_iff)
    then obtain y where y: "List.find (\<lambda>i. i \<noteq> ?a) (users rm) = Some y" by blast
    then have "y \<in> set (users rm)" "y \<noteq> ?a"
      by (auto simp: find_Some_iff)
    with members(1) have "y = b" by auto
    with y members(3) show ?thesis by (simp add: other_user_def)
  qed
  have cb: "map_of (connectedUsers s) b \<noteq> None"
    using conn by (simp add: map_of_eq_None_iff)
  have s2_eq: "s2 = (sio_leave b roomId (sio_leave ?a roomId s))
      \<lparr>activeRooms := AList.delete roomId (activeRooms s)\<rparr>"
    using ou cb by (simp add: s2_def other_leaves_def sio_leave_def)
  have w2: "waitingUsers s2 = waitingUsers s" and a2: "activeRooms s2 = AList.delete roomId (activeRooms s)"
    by (simp_all add: s2_eq sio_leave_def)
  have "sio_members s2 roomId = sio_members (sio_leave b roomId (sio_leave ?a roomId s)) roomId"
    by (simp add: s2_eq sio_members_def)
  then have "set (sio_members s2 roomId) = {}"
    by (simp add: set_sio_members_leave joined(2))
  then have m2: "sio_members s2 roomId = []" by simp
  from match_or_wait_cases [OF mw]
  consider (wait) "out' = [(?a, WaitingForMatch)]"
      "waitingUsers s3 = removeAll ?a (waitingUsers s2) @ [?a]"
      "activeRooms s3 = activeRooms s2" "adapter s3 = adapter s2"
    | (pair) p where "p \<in> set (waitingUsers s2)" "p \<noteq> ?a"
      "out' = [(?a, Matched newRoomId p True), (p, Matched newRoomId ?a False)]"
      "waitingUsers s3 = removeAll p (removeAll ?a (waitingUsers s2))"
      "activeRooms s3 = AList.update newRoomId \<lparr>users = [?a, p], createdAt = now\<rparr> (activeRooms s2)"
      "adapter s3 = set_add (newRoomId, p) (set_add (newRoomId, ?a) (adapter s2))"
    by blast
  then show ?thesis
  proof cases
    case wait
    have "sio_members s3 roomId = []"
      using m2 wait(4) by (simp add: sio_members_def)
    moreover have "map_of (activeRooms s3) roomId = None"
      by (simp add: wait(3) a2 delete_conv')
    moreover have "b \<notin> set (waitingUsers s3)" "?a \<in> set (waitingUsers s3)"
      using idle members(2) by (simp_all add: wait(2) w2)
    ultimately show ?thesis
      using members(2) by (simp add: out skipped s' wait(1))
  next
    case pair
    have pb: "p \<noteq> b" using pair(1) idle by (auto simp: w2)
    have "sio_members s3 roomId = sio_members s2 roomId"
      using fresh by (simp add: sio_members_def pair(6) set_add_def)
    then have "sio_members s3 roomId = []" using m2 by simp
    moreover have "map_of (activeRooms s3) roomId = None"
      using fresh by (simp add: pair(5) a2 delete_conv' update_conv')
    moreover have "map_of (activeRooms s3) newRoomId = Some \<lparr>users = [?a, p], createdAt = now\<rparr>"
      by (simp add: pair(5) update_conv')
    moreover have "b \<notin> set (waitingUsers s3)" "?a \<notin> set (waitingUsers s3)"
      using idle by (simp_all add: pair(4) w2)
    moreover have "p \<in> set (waitingUsers s)" using pair(1) by (simp add: w2)
    ultimately show ?thesis
      using members(2) pair(2) pb by (simp add: out skipped s' pair(3))
  qed
qed

theorem skip_user_by_member_witness:
  "map_of (activeRooms st_paired) ''R1'' = Some \<lparr>users = [''B'', ''A''], createdAt = 10\<rparr> \<and>
   set [''B'', ''A''] = {sock_id sockA, ''B''} \<and> ''B'' \<noteq> sock_id sockA \<and>
   ''B'' \<in> fst ` set (connectedUsers st_paired) \<and>
   distinct (adapter st_paired) \<and> set (sio_members st_paired ''R1'') = {sock_id sockA, ''B''} \<and>
   ''B'' \<notin> set (waitingUsers st_paired) \<and>
   snd (on_skip_user st_paired sockA ''R1'' ''R2'' 20) =
     [(''B'', PartnerSkipped), (''A'', WaitingForMatch)] \<and>
   map_of (activeRooms (fst (on_skip_user st_paired sockA ''R1'' ''R2'' 20))) ''R1'' = None \<and>
   sio_members (fst (on_skip_user st_paired sockA ''R1'' ''R2'' 20)) ''R1'' = [] \<and>
   ''B'' \<notin> set (waitingUsers (fst (on_skip_user st_paired sockA ''R1'' ''R2'' 20)))"
proof -
  have room: "map_of (activeRooms st_paired) ''R1'' = Some \<lparr>users = [''B'', ''A''], createdAt = 10\<rparr>"
    by (simp add: st_paired_def st_connected_def)
  have members: "set (users \<lparr>users = [''B'', ''A''], createdAt = 10\<rparr>) = {sock_id sockA, ''B''}"
    "''B'' \<noteq> sock_id sockA" "''B'' \<noteq> []"
    by (auto simp: sockA_def)
  have conn: "''B'' \<in> fst ` set (connectedUsers st_paired)"
    by (simp add: st_paired_def st_connected_def)
  have joined: "distinct (adapter st_paired)"
    "set (sio_members st_paired ''R1'') = {sock_id sockA, ''B''}"
    by (auto simp: st_paired_def st_connected_def sio_members_def sockA_def)
  have idle: "''B'' \<notin> set (waitingUsers st_paired)"
    by (simp add: st_paired_def st_connected_def)
  have fresh: "''R2'' \<noteq> ''R1''" by simp
  have res: "on_skip_user st_paired sockA ''R1'' ''R2'' 20 =
      (fst (on_skip_user st_paired sockA ''R1'' ''R2'' 20),
       snd (on_skip_user st_paired sockA ''R1'' ''R2'' 20))"
    by simp
  have out: "snd (on_skip_user st_paired sockA ''R1'' ''R2'' 20) =
      [(''B'', PartnerSkipped), (''A'', WaitingForMatch)]"
    by (simp add: on_skip_user_def st_paired_def st_connected_def sockA_def sio_to_def
        sio_members_def sio_leave_def other_leaves_def other_user_def match_or_wait_def
        findMatch_def set_add_def sockB_def)
  from skip_user_by_member [OF room members conn joined idle fresh res]
  have "map_of (activeRooms (fst (on_skip_user st_paired sockA ''R1'' ''R2'' 20))) ''R1'' = None \<and>
    sio_members (fst (on_skip_user st_paired sockA ''R1'' ''R2'' 20)) ''R1'' = [] \<and>
    ''B'' \<notin> set (waitingUsers (fst (on_skip_user st_paired sockA ''R1'' ''R2'' 20)))"
    by blast
  with room members conn joined idle out show ?thesis by simp
qed

text \<open>
  Claim C6 at a concrete input. The server does not keep a matched session out of the
  queue (the guard of \<^verbatim>\<open>find-match\<close> never fires): after A and B are paired in R1, B
  asks for a match again and is queued. A then skips R1: B is sent \<^verbatim>\<open>partner-skipped\<close>,
  and \<^verbatim>\<open>findMatch\<close> takes B out of the queue and pairs A with B again, in room R2.
\<close>

theorem skip_rematches_skipped_partner:
  "run initial
     [Connection sockA True 0, Connection sockB True 0, Connection sockC True 0,
      FindMatch ''A'' True ''R0'' 5, FindMatch ''B'' True ''R1'' 10,
      FindMatch ''B'' True ''R0'' 15] =
   Inr (st_partner_queued,
     [(''A'', WaitingForMatch),
      (''B'', Matched ''R1'' ''A'' True), (''A'', Matched ''R1'' ''B'' False),
      (''B'', WaitingForMatch)]) \<and>
   map_of (activeRooms st_partner_queued) ''R1'' = Some \<lparr>users = [''B'', ''A''], createdAt = 10\<rparr> \<and>
   snd (on_skip_user st_partner_queued sockA ''R1'' ''R2'' 20) =
     [(''B'', PartnerSkipped),
      (''A'', Matched ''R2'' ''B'' True), (''B'', Matched ''R2'' ''A'' False)] \<and>
   activeRooms (fst (on_skip_user st_partner_queued sockA ''R1'' ''R2'' 20)) =
     [(''R2'', \<lparr>users = [''A'', ''B''], createdAt = 20\<rparr>)]"
  by (simp add: initial_def st_partner_queued_def st_paired_def st_connected_def
      sockA_def sockB_def sockC_def on_connection_def sio_join_def set_add_def
      on_find_match_def existingSession_def List.map_filter_def match_or_wait_def findMatch_def
      on_skip_user_def sio_to_def sio_members_def sio_leave_def other_leaves_def other_user_def)

text \<open>
  Claim C10. A \<^verbatim>\<open>skip-user\<close> naming a room of \<^verbatim>\<open>activeRooms\<close> emits
  \<^verbatim>\<open>partner-skipped\<close> to every socket joined to the room other than the sender (so to
  every member other than the sender, when the members are joined) and deletes the room,
  with no condition on the sender: the handler never checks that the sender is a member.
\<close>

theorem skip_user_unchecked:
  assumes room: "map_of (activeRooms s) roomId = Some rm"
    and fresh: "newRoomId \<noteq> roomId"
    and res: "on_skip_user s sock roomId newRoomId now = (s', out)"
  shows "\<exists>out'. out = map (\<lambda>y. (y, PartnerSkipped))
                      (filter (\<lambda>y. y \<noteq> sock_id sock) (sio_members s roomId)) @ out' \<and>
           (\<forall>e \<in> set out'. snd e \<noteq> PartnerSkipped) \<and>
           map_of (activeRooms s') roomId = None \<and>
           (set (users rm) \<subseteq> set (sio_members s roomId) \<longrightarrow>
              (\<forall>u \<in> set (users rm). u \<noteq> sock_id sock \<longrightarrow> (u, PartnerSkipped) \<in> set out))"
proof -
  define s2 where "s2 = (other_leaves rm (sock_id sock) roomId (sio_leave (sock_id sock) roomId s))
           \<lparr>activeRooms := AList.delete roomId (activeRooms s)\<rparr>"
  obtain s3 out' where mw: "match_or_wait s2 (sock_id sock) newRoomId now = (s3, out')"
    by (cases "match_or_wait s2 (sock_id sock) newRoomId now")
  from res have s': "s' = s3" and out: "out = sio_to s (sock_id sock) roomId PartnerSkipped @ out'"
    by (simp_all add: on_skip_user_room [OF room] s2_def [symmetric] mw)
  have a2: "activeRooms s2 = AList.delete roomId (activeRooms s)"
    by (simp add: s2_def)
  from match_or_wait_cases [OF mw]
  have np: "\<forall>e \<in> set out'. snd e \<noteq> PartnerSkipped"
    and gone: "map_of (activeRooms s3) roomId = None"
    using fresh by (auto simp: a2 update_conv' delete_conv')
  have mem: "set (users rm) \<subseteq> set (sio_members s roomId) \<longrightarrow>
              (\<forall>u \<in> set (users rm). u \<noteq> sock_id sock \<longrightarrow> (u, PartnerSkipped) \<in> set out)"
    by (auto simp: out sio_to_def)
  show ?thesis
    using out np gone mem unfolding s' sio_to_def by blast
qed

theorem skip_user_unchecked_witness:
  "map_of (activeRooms st_paired) ''R1'' = Some \<lparr>users = [''B'', ''A''], createdAt = 10\<rparr> \<and>
   ''R2'' \<noteq> ''R1'' \<and> sock_id sockC \<notin> set [''B'', ''A''] \<and>
   set [''B'', ''A''] \<subseteq> set (sio_members st_paired ''R1'') \<and>
   snd (on_skip_user st_paired sockC ''R1'' ''R2'' 20) =
     [(''B'', PartnerSkipped), (''A'', PartnerSkipped), (''C'', WaitingForMatch)] \<and>
   map_of (activeRooms (fst (on_skip_user st_paired sockC ''R1'' ''R2'' 20))) ''R1'' = None"
proof -
  have room: "map_of (activeRooms st_paired) ''R1'' = Some \<lparr>users = [''B'', ''A''], createdAt = 10\<rparr>"
    by (simp add: st_paired_def st_connected_def)
  have fresh: "''R2'' \<noteq> ''R1''" by simp
  have res: "on_skip_user st_paired sockC ''R1'' ''R2'' 20 =
      (fst (on_skip_user st_paired sockC ''R1'' ''R2'' 20),
       snd (on_skip_user st_paired sockC ''R1'' ''R2'' 20))"
    by simp
  have out: "snd (on_skip_user st_paired sockC ''R1'' ''R2'' 20) =
      [(''B'', PartnerSkipped), (''A'', PartnerSkipped), (''C'', WaitingForMatch)]"
    by (simp add: on_skip_user_def st_paired_def st_connected_def sockC_def sio_to_def
        sio_members_def sio_leave_def other_leaves_def other_user_def match_or_wait_def
        findMatch_def set_add_def sockB_def)
  have mem: "set [''B'', ''A''] \<subseteq> set (sio_members st_paired ''R1'')"
    by (simp add: st_paired_def st_connected_def sio_members_def)
  from skip_user_unchecked [OF room fresh res]
  have "map_of (activeRooms (fst (on_skip_user st_paired sockC ''R1'' ''R2'' 20))) ''R1'' = None"
    by blast
  with room out mem show ?thesis by (simp add: sockC_def)
qed

subsection \<open>Disconnecting\<close>

lemma in_room_case: "(\<lambda>(roomId, rm). x \<in> set (users rm)) = in_room x"
  by (auto simp: in_room_def fun_eq_iff)



lemma on_disconnect_first:
  assumes "on_disconnect s sock True now = (s1, out1)"
  shows "waitingUsers s1 = removeAll (sock_id sock) (waitingUsers s)"
    and "connectedUsers s1 = AList.delete (sock_id sock) (connectedUsers s)"
    and "activeRooms s1 =
           (case List.find (in_room (sock_id sock)) (activeRooms s) of
              None \<Rightarrow> activeRooms s
            | Some (roomId, rm) \<Rightarrow> AList.delete roomId (activeRooms s))"
    and "out1 =
           (case List.find (in_room (sock_id sock)) (activeRooms s) of
              None \<Rightarrow> []
            | Some (roomId, rm) \<Rightarrow> notify_other s rm (sock_id sock))"
  using assms
  by (auto simp: on_disconnect_def in_room_case Let_def other_leaves_tables notify_other_def
      split: option.splits prod.splits)






subsection \<open>The staleness sweep\<close>

lemma sweep_loop_db:
  "sweep_loop True now xs ar =
     filter (\<lambda>e. fst e \<notin> fst ` {e' \<in> set xs. stale now e'}) ar"
proof (induction xs arbitrary: ar)
  case Nil
  show ?case by simp
next
  case (Cons x xs)
  obtain k rm where x: "x = (k, rm)" by (cases x)
  show ?case
  proof (cases "stale now (k, rm)")
    case True
    have "{e' \<in> set (x # xs). stale now e'} = insert (k, rm) {e' \<in> set xs. stale now e'}"
      using True x by auto
    then show ?thesis
      using True Cons.IH [of "AList.delete k ar"]
      by (auto simp: x stale_def AList.delete_eq intro!: filter_cong)
  next
    case False
    have "{e' \<in> set (x # xs). stale now e'} = {e' \<in> set xs. stale now e'}"
      using False x by auto
    then show ?thesis
      using False Cons.IH [of ar] by (simp add: x stale_def)
  qed
qed

lemma sweep_loop_no_db:
  "sweep_loop False now xs ar =
     (case List.find (stale now) xs of None \<Rightarrow> ar | Some (k, rm) \<Rightarrow> AList.delete k ar)"
  by (induction xs arbitrary: ar) (auto simp: stale_def)

lemma distinct_keys_same:
  "distinct (map fst xs) \<Longrightarrow> e \<in> set xs \<Longrightarrow> e' \<in> set xs \<Longrightarrow> fst e = fst e' \<Longrightarrow> e = e'"
  by (metis eq_key_imp_eq_value prod.collapse)

lemma run_reaches_st_two_rooms:
  "run st_paired
     [Connection sockD True 12, FindMatch ''C'' True ''R0'' 15, FindMatch ''D'' True ''R2'' 20] =
   Inr (st_two_rooms,
     [(''C'', WaitingForMatch),
      (''D'', Matched ''R2'' ''C'' True), (''C'', Matched ''R2'' ''D'' False)])"
  by (simp add: st_two_rooms_def st_paired_def st_connected_def sockA_def sockB_def sockC_def
      sockD_def on_connection_def sio_join_def set_add_def on_find_match_def existingSession_def
      List.map_filter_def match_or_wait_def findMatch_def)

text \<open>
  Claim C9, when the queries of the run succeed. Such a run of the sweep removes from
  \<^verbatim>\<open>activeRooms\<close> exactly the rooms older than one hour; and no run, whether its queries
  succeed or not, removes a room that is not older than one hour, or adds a room.
\<close>

theorem sweep_removes_stale_rooms:
  assumes keys: "distinct (map fst (activeRooms s))"
  shows "(db \<longrightarrow> activeRooms (sweep s db now) = filter (\<lambda>e. \<not> stale now e) (activeRooms s)) \<and>
         (\<forall>e \<in> set (activeRooms s). \<not> stale now e \<longrightarrow> e \<in> set (activeRooms (sweep s db now))) \<and>
         set (activeRooms (sweep s db now)) \<subseteq> set (activeRooms s)"
proof -
  let ?ar = "activeRooms s"
  have key_stale: "fst e \<in> fst ` {e' \<in> set ?ar. stale now e'} \<longleftrightarrow> stale now e"
    if "e \<in> set ?ar" for e
  proof
    assume "fst e \<in> fst ` {e' \<in> set ?ar. stale now e'}"
    then obtain e' where e': "e' \<in> set ?ar" "stale now e'" "fst e = fst e'" by auto
    with distinct_keys_same [OF keys that e'(1)] show "stale now e" by simp
  next
    assume "stale now e"
    with that show "fst e \<in> fst ` {e' \<in> set ?ar. stale now e'}" by auto
  qed
  have up: "sweep_loop True now ?ar ?ar = filter (\<lambda>e. \<not> stale now e) ?ar"
    unfolding sweep_loop_db by (rule filter_cong) (auto simp: key_stale)
  have down: "sweep_loop False now ?ar ?ar =
      (case List.find (stale now) ?ar of None \<Rightarrow> ?ar | Some (k, rm) \<Rightarrow> AList.delete k ?ar)"
    by (rule sweep_loop_no_db)
  have young: "e \<in> set (sweep_loop db now ?ar ?ar)" if "e \<in> set ?ar" "\<not> stale now e" for e
  proof (cases db)
    case True
    with that show ?thesis by (simp add: up)
  next
    case False
    show ?thesis
    proof (cases "List.find (stale now) ?ar")
      case None
      with that False show ?thesis by (simp add: down)
    next
      case (Some e')
      then have e': "e' \<in> set ?ar" "stale now e'"
        by (auto simp: find_Some_iff)
      with distinct_keys_same [OF keys that(1) e'(1)] that(2) have "fst e \<noteq> fst e'"
        by auto
      with that(1) have "e \<in> set (AList.delete (fst e') ?ar)"
        by (auto simp: AList.delete_eq)
      with False Some show ?thesis by (cases e') (simp add: down)
    qed
  qed
  have sub: "set (sweep_loop db now ?ar ?ar) \<subseteq> set ?ar"
    by (cases db) (auto simp: up down AList.delete_eq split: option.splits)
  show ?thesis
    using up down young sub by (simp add: sweep_def)
qed


theorem sweep_removes_stale_rooms_witness:
  "distinct (map fst (activeRooms st_two_rooms)) \<and>
   stale 3600015 (''R1'', \<lparr>users = [''B'', ''A''], createdAt = 10\<rparr>) \<and>
   \<not> stale 3600015 (''R2'', \<lparr>users = [''D'', ''C''], createdAt = 20\<rparr>) \<and>
   activeRooms (sweep st_two_rooms True 3600015) =
     [(''R2'', \<lparr>users = [''D'', ''C''], createdAt = 20\<rparr>)]"
proof -
  have keys: "distinct (map fst (activeRooms st_two_rooms))"
    by (simp add: st_two_rooms_def)
  from sweep_removes_stale_rooms [OF keys, of True 3600015]
  have "activeRooms (sweep st_two_rooms True 3600015) =
      filter (\<lambda>e. \<not> stale 3600015 e) (activeRooms st_two_rooms)"
    by simp
  then have "activeRooms (sweep st_two_rooms True 3600015) =
     [(''R2'', \<lparr>users = [''D'', ''C''], createdAt = 20\<rparr>)]"
    by (simp add: st_two_rooms_def stale_def)
  with keys show ?thesis by (simp add: stale_def)
qed

text \<open>
  Claim C9, when a query of the run throws: at time 4000000 both R1 and R2 are older than
  one hour; the sweep deletes R1, the update that follows throws, the loop is left, and
  R2 is still in \<^verbatim>\<open>activeRooms\<close> after the run.
\<close>

theorem sweep_database_down_keeps_stale_room:
  "stale 4000000 (''R2'', \<lparr>users = [''D'', ''C''], createdAt = 20\<rparr>) \<and>
   activeRooms (sweep st_two_rooms False 4000000) =
     [(''R2'', \<lparr>users = [''D'', ''C''], createdAt = 20\<rparr>)]"
  by (simp add: stale_def sweep_def st_two_rooms_def)

subsection \<open>A disconnected session is never paired again\<close>

lemma absent_not_connected: "absent x s \<Longrightarrow> map_of (connectedUsers s) x = None"
  by (force simp: absent_def list_all_iff map_of_eq_None_iff)

lemma absent_lookup: "absent x s \<Longrightarrow> map_of (connectedUsers s) y = Some sock \<Longrightarrow> sock_id sock \<noteq> x"
  by (auto simp: absent_def list_all_iff dest!: map_of_SomeD)

lemma relay_never_pairs: "e \<in> set (relay s sock r sig now) \<Longrightarrow> \<not> pairs_with x e"
  by (cases sig)
    (auto simp: on_webrtc_offer_def on_webrtc_answer_def on_webrtc_ice_candidate_def
      on_chat_message_def on_toggle_camera_def on_toggle_mic_def sio_to_def pairs_with_def)

lemma match_or_wait_absent:
  assumes "absent x s" and "y \<noteq> x" and "match_or_wait s y r now = (s', out)"
  shows "absent x s' \<and> (\<forall>e \<in> set out. \<not> pairs_with x e)"
proof -
  from assms(1) have xw: "x \<notin> set (waitingUsers s)" by (simp add: absent_def)
  from match_or_wait_cases [OF assms(3)]
  consider (wait) "out = [(y, WaitingForMatch)]"
      "waitingUsers s' = removeAll y (waitingUsers s) @ [y]"
      "connectedUsers s' = connectedUsers s"
    | (pair) p where "p \<in> set (waitingUsers s)"
      "out = [(y, Matched r p True), (p, Matched r y False)]"
      "waitingUsers s' = removeAll p (removeAll y (waitingUsers s))"
      "connectedUsers s' = connectedUsers s"
    by blast
  then show ?thesis
  proof cases
    case wait
    with assms(1,2) show ?thesis by (simp add: absent_def pairs_with_def)
  next
    case pair
    from pair(1) xw have "p \<noteq> x" by auto
    with pair assms(1,2) show ?thesis by (simp add: absent_def pairs_with_def)
  qed
qed

lemma on_skip_user_split:
  assumes "on_skip_user s sock r r' now = (s', out)"
  shows "\<exists>s2 out'. waitingUsers s2 = waitingUsers s \<and> connectedUsers s2 = connectedUsers s \<and>
           user_sessions s2 = user_sessions s \<and>
           match_or_wait s2 (sock_id sock) r' now = (s', out') \<and>
           out = sio_to s (sock_id sock) r PartnerSkipped @ out'"
proof -
  define s2 where "s2 = (case map_of (activeRooms (sio_leave (sock_id sock) r s)) r of
                  None \<Rightarrow> sio_leave (sock_id sock) r s
                | Some rm \<Rightarrow>
                    (other_leaves rm (sock_id sock) r (sio_leave (sock_id sock) r s))
                      \<lparr>activeRooms := AList.delete r (activeRooms (sio_leave (sock_id sock) r s))\<rparr>)"
  have "waitingUsers s2 = waitingUsers s" "connectedUsers s2 = connectedUsers s"
    "user_sessions s2 = user_sessions s"
    by (simp_all add: s2_def other_leaves_tables sio_leave_def split: option.splits)
  moreover obtain s3 out' where mw: "match_or_wait s2 (sock_id sock) r' now = (s3, out')"
    by (cases "match_or_wait s2 (sock_id sock) r' now")
  moreover from assms have "s' = s3" "out = sio_to s (sock_id sock) r PartnerSkipped @ out'"
    by (simp_all add: on_skip_user_def Let_def s2_def [symmetric] mw)
  ultimately show ?thesis by blast
qed

lemma on_disconnect_absent:
  assumes "absent x s" and "on_disconnect s sock db now = (s', out)"
  shows "absent x s' \<and> (\<forall>e \<in> set out. \<not> pairs_with x e)"
proof (cases db)
  case False
  with assms show ?thesis by (simp add: on_disconnect_def)
next
  case True
  with assms(2) have r: "on_disconnect s sock True now = (s', out)" by simp
  note f = on_disconnect_first [OF r]
  have "\<forall>e \<in> set out. snd e = PartnerDisconnected"
    by (auto simp: f(4) notify_other_def split: option.splits if_splits)
  then have "\<forall>e \<in> set out. \<not> pairs_with x e"
    by (simp add: pairs_with_def)
  moreover have "absent x s'"
    using assms(1) by (auto simp: absent_def f(1,2) AList.delete_eq list_all_iff)
  ultimately show ?thesis by simp
qed

lemma set_update_subset: "set (AList.update k v al) \<subseteq> insert (k, v) (set al)"
  by (induction al) auto

lemma step_absent:
  assumes "absent x s" and "\<not> connects x e" and "step s e = Inr (s', out)"
  shows "absent x s' \<and> (\<forall>e \<in> set out. \<not> pairs_with x e)"
proof (cases e)
  case (Connection sk db t)
  with assms(2) have ne: "sock_id sk \<noteq> x" by (simp add: connects_def)
  from assms(3) Connection have "s' = on_connection (sio_join (sock_id sk) (sock_id sk) s) sk db t"
    and "out = []" by simp_all
  moreover have "list_all (\<lambda>e. fst e \<noteq> x \<and> sock_id (snd e) \<noteq> x)
      (AList.update (sock_id sk) sk (connectedUsers s))"
    using assms(1) ne set_update_subset [of "sock_id sk" sk "connectedUsers s"]
    by (auto simp: absent_def list_all_iff)
  ultimately show ?thesis
    using assms(1) by (simp add: absent_def on_connection_def sio_join_def)
next
  case (FindMatch y db r t)
  show ?thesis
  proof (cases "map_of (connectedUsers s) y")
    case None
    with assms FindMatch show ?thesis by simp
  next
    case (Some sock)
    from absent_lookup [OF assms(1) Some] have ne: "sock_id sock \<noteq> x" .
    from assms(3) FindMatch Some have r: "on_find_match s sock db r t = Inr (s', out)" by simp
    show ?thesis
    proof (cases "existingSession s (sock_user sock)")
      case Nil
      with r have "match_or_wait s (sock_id sock) r t = (s', out)"
        by (simp add: on_find_match_def split: if_splits)
      from match_or_wait_absent [OF assms(1) ne this] show ?thesis .
    next
      case (Cons a as)
      with r have "s' = s" "out = [(sock_id sock, AlreadyInRoom a)]"
        by (simp_all add: on_find_match_def split: if_splits)
      with assms(1) show ?thesis by (simp add: pairs_with_def)
    qed
  qed
next
  case (Signal y r sig t)
  with assms(1,3) show ?thesis
    by (auto split: option.splits dest: relay_never_pairs)
next
  case (SkipUser y r r' t)
  show ?thesis
  proof (cases "map_of (connectedUsers s) y")
    case None
    with assms SkipUser show ?thesis by simp
  next
    case (Some sock)
    from absent_lookup [OF assms(1) Some] have ne: "sock_id sock \<noteq> x" .
    from assms(3) SkipUser Some have "on_skip_user s sock r r' t = (s', out)" by simp
    from on_skip_user_split [OF this] obtain s2 out' where
      s2: "waitingUsers s2 = waitingUsers s" "connectedUsers s2 = connectedUsers s"
      and mw: "match_or_wait s2 (sock_id sock) r' t = (s', out')"
      and out: "out = sio_to s (sock_id sock) r PartnerSkipped @ out'"
      by blast
    from assms(1) s2 have "absent x s2" by (simp add: absent_def)
    from match_or_wait_absent [OF this ne mw] show ?thesis
      by (auto simp: out sio_to_def pairs_with_def)
  qed
next
  case (Disconnect y db t)
  show ?thesis
  proof (cases "map_of (connectedUsers s) y")
    case None
    with assms Disconnect show ?thesis by simp
  next
    case (Some sock)
    from assms(3) Disconnect Some have r: "on_disconnect (sio_leave_all y s) sock db t = (s', out)"
      by simp
    from assms(1) have "absent x (sio_leave_all y s)"
      by (simp add: absent_def sio_leave_all_def)
    from on_disconnect_absent [OF this r] show ?thesis .
  qed
next
  case (Sweep db t)
  with assms(1,3) show ?thesis by (auto simp: absent_def sweep_def)
qed

lemma run_absent:
  assumes "absent x s" and "\<forall>e \<in> set evs. \<not> connects x e" and "run s evs = Inr (s', out)"
  shows "absent x s' \<and> (\<forall>e \<in> set out. \<not> pairs_with x e)"
  using assms
proof (induction evs arbitrary: s s' out)
  case Nil
  then show ?case by simp
next
  case (Cons e evs)
  from Cons.prems(3) obtain s1 out1 s2 out2 where
    st: "step s e = Inr (s1, out1)" and rn: "run s1 evs = Inr (s2, out2)"
    and eq: "s' = s2" "out = out1 @ out2"
    by (auto split: sum.splits prod.splits)
  from Cons.prems(2) have ne: "\<not> connects x e" and rest: "\<forall>e \<in> set evs. \<not> connects x e"
    by simp_all
  from step_absent [OF Cons.prems(1) ne st] have a1: "absent x s1"
    and o1: "\<forall>e \<in> set out1. \<not> pairs_with x e" by simp_all
  from Cons.IH [OF a1 rest rn] o1 show ?case
    by (auto simp: eq)
qed

text \<open>
  Claim C7, when the handler's first query succeeds. The disconnect handler takes the
  session out of \<^verbatim>\<open>waitingUsers\<close> and \<^verbatim>\<open>connectedUsers\<close>, and in every later run of the
  server in which no socket connects under the same id the session is never queued again
  and no \<^verbatim>\<open>matched\<close> event is sent to it or names it as a partner.
\<close>

theorem disconnect_dequeues_for_good:
  assumes stored: "list_all (\<lambda>e. sock_id (snd e) = fst e) (connectedUsers s)"
    and first: "on_disconnect s sock True now = (s1, out1)"
    and later: "run s1 evs = Inr (s2, out2)"
    and fresh: "list_all (\<lambda>e. \<not> connects (sock_id sock) e) evs"
  shows "sock_id sock \<notin> set (waitingUsers s1) \<and>
         map_of (connectedUsers s1) (sock_id sock) = None \<and>
         sock_id sock \<notin> set (waitingUsers s2) \<and>
         map_of (connectedUsers s2) (sock_id sock) = None \<and>
         list_all (\<lambda>e. \<not> pairs_with (sock_id sock) e) out2"
proof -
  let ?x = "sock_id sock"
  note f = on_disconnect_first [OF first]
  have a1: "absent ?x s1"
    using stored by (auto simp: absent_def f(1,2) AList.delete_eq list_all_iff)
  from fresh have "\<forall>e \<in> set evs. \<not> connects ?x e"
    by (simp add: list_all_iff)
  from run_absent [OF a1 this later] have a2: "absent ?x s2"
    and o2: "\<forall>e \<in> set out2. \<not> pairs_with ?x e"
    by simp_all
  from a1 a2 o2 absent_not_connected [OF a1] absent_not_connected [OF a2] show ?thesis
    by (simp add: absent_def list_all_iff)
qed

theorem disconnect_dequeues_for_good_witness:
  "list_all (\<lambda>e. sock_id (snd e) = fst e) (connectedUsers (sio_leave_all ''A'' st_waiting)) \<and>
   ''A'' \<in> set (waitingUsers (sio_leave_all ''A'' st_waiting)) \<and>
   list_all (\<lambda>e. \<not> connects (sock_id sockA) e) [FindMatch ''B'' True ''R1'' 40] \<and>
   ''A'' \<notin> set (waitingUsers (fst (on_disconnect (sio_leave_all ''A'' st_waiting) sockA True 30))) \<and>
   emitted (run (fst (on_disconnect (sio_leave_all ''A'' st_waiting) sockA True 30))
              [FindMatch ''B'' True ''R1'' 40]) = [(''B'', WaitingForMatch)]"
proof -
  let ?s = "sio_leave_all ''A'' st_waiting"
  let ?s1 = "fst (on_disconnect ?s sockA True 30)"
  have stored: "list_all (\<lambda>e. sock_id (snd e) = fst e) (connectedUsers ?s)"
    by (simp add: sio_leave_all_def st_waiting_def st_connected_def sockA_def sockB_def sockC_def)
  have waiting: "''A'' \<in> set (waitingUsers ?s)"
    by (simp add: sio_leave_all_def st_waiting_def st_connected_def)
  have first: "on_disconnect ?s sockA True 30 = (?s1, snd (on_disconnect ?s sockA True 30))"
    by simp
  have s1: "?s1 =
      \<lparr>connectedUsers = [(''B'', sockB), (''C'', sockC)], waitingUsers = [], activeRooms = [],
        adapter = [(''B'', ''B''), (''C'', ''C'')],
        user_sessions =
          [\<lparr>row_user_id = 1, row_socket_id = ''A'', row_room_id = None,
            row_connected_at = 0, row_disconnected_at = Some 30, row_is_active = False\<rparr>,
           \<lparr>row_user_id = 2, row_socket_id = ''B'', row_room_id = None,
            row_connected_at = 0, row_disconnected_at = None, row_is_active = True\<rparr>,
           \<lparr>row_user_id = 3, row_socket_id = ''C'', row_room_id = None,
            row_connected_at = 0, row_disconnected_at = None, row_is_active = True\<rparr>]\<rparr>"
    by (simp add: on_disconnect_def sio_leave_all_def st_waiting_def st_connected_def sockA_def)
  have later: "run ?s1 [FindMatch ''B'' True ''R1'' 40] =
      Inr (?s1\<lparr>waitingUsers := [''B'']\<rparr>, [(''B'', WaitingForMatch)])"
    unfolding s1
    by (simp add: sockB_def on_find_match_def existingSession_def List.map_filter_def
        match_or_wait_def findMatch_def set_add_def)
  have fresh: "list_all (\<lambda>e. \<not> connects (sock_id sockA) e) [FindMatch ''B'' True ''R1'' 40]"
    by (simp add: connects_def)
  from disconnect_dequeues_for_good [OF stored first later fresh]
  have "sock_id sockA \<notin> set (waitingUsers ?s1)" by blast
  then have gone: "''A'' \<notin> set (waitingUsers ?s1)" by (simp add: sockA_def)
  have em: "emitted (run ?s1 [FindMatch ''B'' True ''R1'' 40]) = [(''B'', WaitingForMatch)]"
    unfolding later by (simp add: emitted_def)
  from stored waiting fresh gone em show ?thesis
    by blast
qed

text \<open>
  Claim C7, when the handler's first query throws: the waiting session A disconnects
  while the database is unreachable, stays in \<^verbatim>\<open>waitingUsers\<close>, and the next
  \<^verbatim>\<open>findMatch\<close> (by B) selects it as the partner.
\<close>

theorem disconnect_database_down_keeps_session:
  "''A'' \<in> set (waitingUsers st_waiting) \<and>
   ''A'' \<in> set (waitingUsers (fst (on_disconnect (sio_leave_all ''A'' st_waiting) sockA False 30))) \<and>
   emitted (run st_waiting [Disconnect ''A'' False 30, FindMatch ''B'' True ''R1'' 40]) =
     [(''B'', Matched ''R1'' ''A'' True), (''A'', Matched ''R1'' ''B'' False)]"
  by (simp add: emitted_def st_waiting_def st_connected_def sockA_def sockB_def sockC_def
      on_disconnect_def sio_leave_all_def on_find_match_def existingSession_def
      List.map_filter_def match_or_wait_def findMatch_def sio_join_def set_add_def)

subsection \<open>The guard of find-match\<close>

text \<open>
  The guard of the \<^verbatim>\<open>find-match\<close> handler reads the column \<^verbatim>\<open>room_id\<close> of
  \<^verbatim>\<open>user_sessions\<close>. The server inserts its rows without a room id and no statement of
  the server sets one, so in every state the server reaches from its start the query
  has no rows and \<^verbatim>\<open>already-in-room\<close> is never emitted.
\<close>

lemma existingSession_unroomed: "rows_unroomed s \<Longrightarrow> existingSession s uid = []"
  by (simp add: rows_unroomed_def existingSession_def List.map_filter_def list_all_iff
      filter_empty_conv)

lemma step_unroomed:
  assumes "rows_unroomed s" and "step s e = Inr (s', out)"
  shows "rows_unroomed s'"
proof (cases e)
  case (Connection sk db t)
  with assms show ?thesis
    by (auto simp: rows_unroomed_def on_connection_def sio_join_def)
next
  case (FindMatch y db r t)
  show ?thesis
  proof (cases "map_of (connectedUsers s) y")
    case None
    with assms FindMatch show ?thesis by simp
  next
    case (Some sock)
    from assms(2) FindMatch Some have "on_find_match s sock db r t = Inr (s', out)" by simp
    then have "match_or_wait s (sock_id sock) r t = (s', out)"
      by (simp add: on_find_match_def existingSession_unroomed [OF assms(1)] split: if_splits)
    from match_or_wait_cases [OF this] have "user_sessions s' = user_sessions s" by blast
    with assms(1) show ?thesis by (simp add: rows_unroomed_def)
  qed
next
  case (Signal y r sig t)
  with assms show ?thesis by (auto split: option.splits)
next
  case (SkipUser y r r' t)
  show ?thesis
  proof (cases "map_of (connectedUsers s) y")
    case None
    with assms SkipUser show ?thesis by simp
  next
    case (Some sock)
    from assms(2) SkipUser Some have "on_skip_user s sock r r' t = (s', out)" by simp
    from on_skip_user_split [OF this] obtain s2 out' where
      s2: "user_sessions s2 = user_sessions s"
      and mw: "match_or_wait s2 (sock_id sock) r' t = (s', out')"
      by blast
    from match_or_wait_cases [OF mw] have "user_sessions s' = user_sessions s2" by blast
    with assms(1) s2 show ?thesis by (simp add: rows_unroomed_def)
  qed
next
  case (Disconnect y db t)
  show ?thesis
  proof (cases "map_of (connectedUsers s) y")
    case None
    with assms Disconnect show ?thesis by simp
  next
    case (Some sock)
    from assms(2) Disconnect Some have "on_disconnect (sio_leave_all y s) sock db t = (s', out)"
      by simp
    with assms(1) show ?thesis
      by (auto simp: rows_unroomed_def on_disconnect_def sio_leave_all_def Let_def
          other_leaves_tables list_all_iff split: if_splits option.splits prod.splits)
  qed
next
  case (Sweep db t)
  with assms show ?thesis
    by (cases db) (auto simp: rows_unroomed_def sweep_def list_all_iff)
qed

lemma run_unroomed:
  assumes "rows_unroomed s" and "run s evs = Inr (s', out)"
  shows "rows_unroomed s'"
  using assms
proof (induction evs arbitrary: s s' out)
  case Nil
  then show ?case by simp
next
  case (Cons e evs)
  from Cons.prems(2) obtain s1 out1 s2 out2 where
    st: "step s e = Inr (s1, out1)" and rn: "run s1 evs = Inr (s2, out2)" and eq: "s' = s2"
    by (auto split: sum.splits prod.splits)
  from Cons.IH [OF step_unroomed [OF Cons.prems(1) st] rn] show ?case
    by (simp add: eq)
qed

lemma already_in_room_never_sent:
  assumes "run initial evs = Inr (s, out)"
  shows "existingSession s uid = []"
proof -
  have "rows_unroomed initial" by (simp add: rows_unroomed_def initial_def)
  from existingSession_unroomed [OF run_unroomed [OF this assms]] show ?thesis .
qed

text \<open>
  Claim C3 at a concrete input: A is a member of the active room R1 and asks for a match.
  The answer is \<^verbatim>\<open>waiting-for-match\<close>, not \<^verbatim>\<open>already-in-room\<close>, and A is put in the
  queue.
\<close>

theorem find_match_while_matched:
  "rooms_of st_paired (sock_id sockA) = [''R1''] \<and>
   on_find_match st_paired sockA True ''R2'' 50 =
     Inr (st_paired\<lparr>waitingUsers := [''A'']\<rparr>, [(''A'', WaitingForMatch)]) \<and>
   st_paired\<lparr>waitingUsers := [''A'']\<rparr> \<noteq> st_paired"
  by (simp add: st_paired_def st_connected_def sockA_def on_find_match_def existingSession_def
      List.map_filter_def match_or_wait_def findMatch_def set_add_def rooms_of_def in_room_def)

text \<open>
  Claim C2 at a concrete input: after seven connection and find-match events, A is a
  member of the two active rooms R1 and R2.
\<close>

theorem session_in_two_rooms:
  "run initial
     [Connection sockA True 0, Connection sockB True 0, Connection sockC True 0,
      FindMatch ''A'' True ''R0'' 5, FindMatch ''B'' True ''R1'' 10,
      FindMatch ''C'' True ''R0'' 20, FindMatch ''A'' True ''R2'' 30] =
   Inr (st_rematched,
     [(''A'', WaitingForMatch),
      (''B'', Matched ''R1'' ''A'' True), (''A'', Matched ''R1'' ''B'' False),
      (''C'', WaitingForMatch),
      (''A'', Matched ''R2'' ''C'' True), (''C'', Matched ''R2'' ''A'' False)]) \<and>
   rooms_of st_rematched ''A'' = [''R1'', ''R2'']"
  by (simp add: initial_def st_rematched_def st_connected_def sockA_def sockB_def sockC_def
      on_connection_def sio_join_def set_add_def on_find_match_def existingSession_def
      List.map_filter_def match_or_wait_def findMatch_def rooms_of_def in_room_def)

subsection \<open>The queue holds connected sessions only\<close>

text \<open>
  The two conditions on the state under which the pairing theorem is stated hold in
  every state the server reaches from its start: a waiting session is in
  \<^verbatim>\<open>connectedUsers\<close>, and so is the caller of a handler.
\<close>

lemma queue_connected_lookup:
  "queue_connected s \<Longrightarrow> map_of (connectedUsers s) y = Some sock \<Longrightarrow>
     sock_id sock = y \<and> y \<in> fst ` set (connectedUsers s)"
  by (force simp: queue_connected_def list_all_iff dest!: map_of_SomeD)

lemma match_or_wait_queue_connected:
  assumes "queue_connected s" and "y \<in> fst ` set (connectedUsers s)"
    and "match_or_wait s y r now = (s', out)"
  shows "queue_connected s'"
proof -
  from match_or_wait_cases [OF assms(3)]
  have "connectedUsers s' = connectedUsers s" "set (waitingUsers s') \<subseteq> insert y (set (waitingUsers s))"
    by auto
  with assms(1,2) show ?thesis by (auto simp: queue_connected_def)
qed

lemma step_queue_connected:
  assumes "queue_connected s" and "step s e = Inr (s', out)"
  shows "queue_connected s'"
proof (cases e)
  case (Connection sk db t)
  from assms(2) Connection have s': "connectedUsers s' = AList.update (sock_id sk) sk (connectedUsers s)"
    "waitingUsers s' = waitingUsers s"
    by (auto simp: on_connection_def sio_join_def)
  have "fst ` set (connectedUsers s') = {sock_id sk} \<union> fst ` set (connectedUsers s)"
    by (simp add: s'(1) dom_update)
  moreover have "list_all (\<lambda>e. sock_id (snd e) = fst e) (connectedUsers s')"
    using assms(1) set_update_subset [of "sock_id sk" sk "connectedUsers s"]
    by (auto simp: s'(1) queue_connected_def list_all_iff)
  ultimately show ?thesis
    using assms(1) by (auto simp: queue_connected_def s'(2))
next
  case (FindMatch y db r t)
  show ?thesis
  proof (cases "map_of (connectedUsers s) y")
    case None
    with assms FindMatch show ?thesis by simp
  next
    case (Some sock)
    note l = queue_connected_lookup [OF assms(1) Some]
    from assms(2) FindMatch Some have r: "on_find_match s sock db r t = Inr (s', out)" by simp
    show ?thesis
    proof (cases "existingSession s (sock_user sock)")
      case Nil
      with r have "match_or_wait s y r t = (s', out)"
        using l by (simp add: on_find_match_def split: if_splits)
      from match_or_wait_queue_connected [OF assms(1) _ this] l show ?thesis by simp
    next
      case (Cons a as)
      with r have "s' = s" by (simp add: on_find_match_def split: if_splits)
      with assms(1) show ?thesis by simp
    qed
  qed
next
  case (Signal y r sig t)
  with assms show ?thesis by (auto split: option.splits)
next
  case (SkipUser y r r' t)
  show ?thesis
  proof (cases "map_of (connectedUsers s) y")
    case None
    with assms SkipUser show ?thesis by simp
  next
    case (Some sock)
    note l = queue_connected_lookup [OF assms(1) Some]
    from assms(2) SkipUser Some have "on_skip_user s sock r r' t = (s', out)" by simp
    from on_skip_user_split [OF this] obtain s2 out' where
      s2: "waitingUsers s2 = waitingUsers s" "connectedUsers s2 = connectedUsers s"
      and mw: "match_or_wait s2 (sock_id sock) r' t = (s', out')"
      by blast
    from assms(1) s2 have q2: "queue_connected s2" by (simp add: queue_connected_def)
    from l s2 have "sock_id sock \<in> fst ` set (connectedUsers s2)" by simp
    from match_or_wait_queue_connected [OF q2 this mw] show ?thesis .
  qed
next
  case (Disconnect y db t)
  show ?thesis
  proof (cases "map_of (connectedUsers s) y")
    case None
    with assms Disconnect show ?thesis by simp
  next
    case (Some sock)
    note l = queue_connected_lookup [OF assms(1) Some]
    from assms(2) Disconnect Some have r: "on_disconnect (sio_leave_all y s) sock db t = (s', out)"
      by simp
    have q0: "queue_connected (sio_leave_all y s)"
      using assms(1) by (simp add: queue_connected_def sio_leave_all_def)
    show ?thesis
    proof (cases db)
      case False
      with r q0 show ?thesis by (simp add: on_disconnect_def)
    next
      case True
      with r have "on_disconnect (sio_leave_all y s) sock True t = (s', out)" by simp
      note f = on_disconnect_first [OF this]
      have w: "set (waitingUsers s') = set (waitingUsers s) - {y}"
        by (simp add: f(1) l sio_leave_all_def)
      have c: "connectedUsers s' = AList.delete y (connectedUsers s)"
        by (simp add: f(2) l sio_leave_all_def)
      have k: "fst ` set (connectedUsers s') = fst ` set (connectedUsers s) - {y}"
        by (force simp: c AList.delete_eq)
      have v: "list_all (\<lambda>e. sock_id (snd e) = fst e) (connectedUsers s')"
        using assms(1) by (auto simp: c queue_connected_def AList.delete_eq list_all_iff)
      from assms(1) have sub: "set (waitingUsers s) \<subseteq> fst ` set (connectedUsers s)"
        by (simp add: queue_connected_def)
      have "set (waitingUsers s') \<subseteq> fst ` set (connectedUsers s')"
        unfolding w k using sub by auto
      with v show ?thesis by (simp add: queue_connected_def)
    qed
  qed
next
  case (Sweep db t)
  with assms show ?thesis by (auto simp: queue_connected_def sweep_def)
qed

lemma run_queue_connected:
  assumes "queue_connected s" and "run s evs = Inr (s', out)"
  shows "queue_connected s'"
  using assms
proof (induction evs arbitrary: s s' out)
  case Nil
  then show ?case by simp
next
  case (Cons e evs)
  from Cons.prems(2) obtain s1 out1 s2 out2 where
    st: "step s e = Inr (s1, out1)" and rn: "run s1 evs = Inr (s2, out2)" and eq: "s' = s2"
    by (auto split: sum.splits prod.splits)
  from Cons.IH [OF step_queue_connected [OF Cons.prems(1) st] rn] show ?case
    by (simp add: eq)
qed

lemma waiting_sessions_connected:
  assumes "run initial evs = Inr (s, out)"
  shows "set (waitingUsers s) \<subseteq> fst ` set (connectedUsers s)"
proof -
  have "queue_connected initial" by (simp add: queue_connected_def initial_def)
  from run_queue_connected [OF this assms] show ?thesis by (simp add: queue_connected_def)
qed

end
